theory Spec2Isabelle
  imports Main "HOL-Library.Sublist" "HOL-Library.Word"
begin

section \<open>Data model\<close>

text \<open>
  Go strings are byte sequences: \<open>len\<close> counts bytes and \<open>s[:k]\<close> slices bytes.
  A \<^typ>\<open>string\<close> is a list of 8-bit characters, so one \<^typ>\<open>char\<close> is one byte.
  Go's \<open>int\<close> is modelled as \<^typ>\<open>int\<close>: the sums and differences of the
  modelled code are bounded by a list length, by a terminal size or by the flag
  value they are compared with, far inside the 64-bit range.
\<close>

record Notification =
  ID :: string
  Unread :: bool
  UpdatedAt :: string
  LastReadAt :: string
  Repository_FullName :: string
  Repository_Owner_Login :: string
  Repository_Name :: string
  Reason :: string
  Subject_Type :: string
  Subject_Title :: string
  Subject_URL :: string
  Subject_LatestCommentURL :: string

definition ghNotifyPerPageLimit :: int where
  "ghNotifyPerPageLimit = 50"

definition finalMsg :: string where
  "finalMsg = ''All caught up!''"

section \<open>Small helpers of the source\<close>

definition min_go :: "int \<Rightarrow> int \<Rightarrow> int" where
  "min_go a b = (if a < b then a else b)"

definition max_go :: "int \<Rightarrow> int \<Rightarrow> int" where
  "max_go a b = (if a > b then a else b)"

text \<open>The ellipsis character U+2026, three bytes in UTF-8.\<close>

definition ellipsis :: string where
  "ellipsis = [CHR 0xE2, CHR 0x80, CHR 0xA6]"

text \<open>
  \<^verbatim>\<open>if max <= 1 || len(s) <= max { return s }; return s[:max-1] + "..."\<close>
  The slice is in range whenever it is reached: \<open>1 \<le> max - 1 < len(s)\<close>.
\<close>

definition abbreviate :: "string \<Rightarrow> int \<Rightarrow> string" where
  "abbreviate s mx =
     (if mx \<le> 1 \<or> int (length s) \<le> mx then s
      else take (nat (mx - 1)) s @ ellipsis)"

text \<open>
  The claims about \<open>abbreviate\<close> count characters. In UTF-8 a character is a
  lead byte followed by continuation bytes (\<open>10xxxxxx\<close>, the values 128 to
  191); \<open>runeCount\<close> counts the bytes of a string that are not continuation
  bytes, which is the number of its characters when the string is valid UTF-8.
  \<open>isASCII s\<close>: every character of \<open>s\<close> is one byte.
\<close>

definition isContinuationByte :: "char \<Rightarrow> bool" where
  "isContinuationByte c \<longleftrightarrow> 128 \<le> (of_char c :: nat) \<and> (of_char c :: nat) < 192"

definition runeCount :: "string \<Rightarrow> nat" where
  "runeCount s = length (filter (\<lambda>c. \<not> isContinuationByte c) s)"

definition isASCII :: "string \<Rightarrow> bool" where
  "isASCII s \<longleftrightarrow> list_all (\<lambda>c. (of_char c :: nat) < 128) s"

section \<open>List navigation model\<close>

record Model =
  notifications :: "Notification list"
  cursor :: int
  width :: int
  height :: int
  showPreview :: bool
  showHelp :: bool

definition NewModel :: "Notification list \<Rightarrow> Model" where
  "NewModel notifs =
     \<lparr>notifications = notifs, cursor = 0, width = 0, height = 0,
      showPreview = False, showHelp = False\<rparr>"

text \<open>
  The messages \<open>Update\<close> switches on: a window size, a key (by the name
  \<open>msg.String()\<close> gives it), or any other message. The command returned is
  either \<open>nil\<close> or \<open>tea.Quit\<close>.
\<close>

datatype Msg = WindowSizeMsg int int | KeyMsg string | OtherMsg

datatype Cmd = NoCmd | Quit

definition Update :: "Model \<Rightarrow> Msg \<Rightarrow> Model \<times> Cmd" where
  "Update m msg =
     (case msg of
        WindowSizeMsg w h \<Rightarrow> (m\<lparr>width := w, height := h\<rparr>, NoCmd)
      | KeyMsg k \<Rightarrow>
          (if k = ''ctrl+c'' \<or> k = ''esc'' \<or> k = ''q'' then (m, Quit)
           else if k = ''up'' \<or> k = ''k'' then
             (if cursor m > 0 then m\<lparr>cursor := cursor m - 1\<rparr> else m, NoCmd)
           else if k = ''down'' \<or> k = ''j'' then
             (if cursor m < int (length (notifications m)) - 1
              then m\<lparr>cursor := cursor m + 1\<rparr> else m, NoCmd)
           else if k = ''tab'' then (m\<lparr>showPreview := \<not> showPreview m\<rparr>, NoCmd)
           else if k = ''?'' then (m\<lparr>showHelp := \<not> showHelp m\<rparr>, NoCmd)
           else if k = ''enter'' then (m\<lparr>showPreview := True\<rparr>, NoCmd)
           else (m, NoCmd))
      | OtherMsg \<Rightarrow> (m, NoCmd))"

subsection \<open>Rendering\<close>

text \<open>
  A run-time panic of the Go program is a value. Indexing \<open>xs[i]\<close> panics
  outside \<open>0 \<le> i < len(xs)\<close>; slicing \<open>xs[:k]\<close> panics for \<open>k < 0\<close> or
  \<open>k\<close> beyond the capacity (the length, for the slices met here).
\<close>

datatype panic = IndexOutOfRange | SliceBoundsOutOfRange

definition index_go :: "'a list \<Rightarrow> int \<Rightarrow> panic + 'a" where
  "index_go xs i =
     (if 0 \<le> i \<and> i < int (length xs) then Inr (xs ! nat i) else Inl IndexOutOfRange)"

definition slice_to :: "'a list \<Rightarrow> int \<Rightarrow> panic + 'a list" where
  "slice_to xs k =
     (if 0 \<le> k \<and> k \<le> int (length xs) then Inr (take (nat k) xs)
      else Inl SliceBoundsOutOfRange)"

text \<open>\<open>fmt.Sprintf("%d", n)\<close> for a natural number, and for an integer.\<close>

fun natDigits :: "nat \<Rightarrow> string" where
  "natDigits n =
     (if n < 10 then [''0123456789'' ! n]
      else natDigits (n div 10) @ [''0123456789'' ! (n mod 10)])"

definition itoa :: "int \<Rightarrow> string" where
  "itoa i = (if i < 0 then ''-'' @ natDigits (nat (- i)) else natDigits (nat i))"

text \<open>
  \<open>View\<close> writes two header lines, then the rows of the visible window.
  \<open>entriesHeight := m.height - len(headerLines) - 1\<close> with two header lines.
\<close>

definition headerLines :: nat where
  "headerLines = 2"

definition entriesHeight :: "Model \<Rightarrow> int" where
  "entriesHeight m = height m - int headerLines - 1"

text \<open>
  The scroll window \<open>(start, end)\<close> that the row loop
  \<open>for i := start; i < end; i++\<close> runs over. The division \<open>entriesHeight/2\<close>
  is only reached for a positive dividend, where Go's truncating division is
  \<open>div\<close>.
\<close>

definition viewWindow :: "Model \<Rightarrow> int \<times> int" where
  "viewWindow m =
     (let eh = entriesHeight m;
          endIdx = int (length (notifications m))
      in if eh > 0 \<and> endIdx > eh then
           (if cursor m < eh div 2 then (0, eh)
            else if cursor m > endIdx - eh div 2 then (endIdx - eh, endIdx)
            else (cursor m - eh div 2, cursor m - eh div 2 + eh))
         else (0, endIdx))"

definition titleWidth :: "Model \<Rightarrow> int" where
  "titleWidth m =
     (let idxDigits = int (length (itoa (int (length (notifications m)))));
          idxWidth = idxDigits + 2
      in max_go (width m - idxWidth - 22 - 12 - 24 - 7 - 10) 8)"

text \<open>
  A rendered row, by its fields; the padding of \<open>Sprintf\<close> and the colours of the
  styles are not modelled.
\<close>

datatype Style = selectedStyle | unreadStyle | readStyle

record Row =
  rowCursor :: bool
  rowIdx :: int
  rowRepo :: string
  rowType :: string
  rowReason :: string
  rowTitle :: string
  rowState :: string
  rowStyle :: Style

definition renderRow :: "Model \<Rightarrow> int \<Rightarrow> Notification \<Rightarrow> Row" where
  "renderRow m i n =
     \<lparr>rowCursor = (cursor m = i),
      rowIdx = i + 1,
      rowRepo = abbreviate (Repository_FullName n) 22,
      rowType = abbreviate (Subject_Type n) 12,
      rowReason = abbreviate (Reason n) 24,
      rowTitle = abbreviate (Subject_Title n) (titleWidth m),
      rowState = (if Unread n then ''UNREAD'' else ''READ''),
      rowStyle = (if cursor m = i then selectedStyle
                  else if Unread n then unreadStyle else readStyle)\<rparr>"

text \<open>The row loop over the indices \<open>start, start + 1, \<dots>, end - 1\<close>, reading
  \<open>m.notifications[i]\<close> at each; the first read out of range panics.\<close>

fun renderRows :: "Model \<Rightarrow> int list \<Rightarrow> panic + Row list" where
  "renderRows m [] = Inr []"
| "renderRows m (i # is) =
     (case index_go (notifications m) i of
        Inl p \<Rightarrow> Inl p
      | Inr n \<Rightarrow>
          (case renderRows m is of
             Inl p \<Rightarrow> Inl p
           | Inr rs \<Rightarrow> Inr (renderRow m i n # rs)))"

record Frame =
  frameRows :: "Row list"
  framePreview :: "Notification option"
  frameHelp :: bool

text \<open>
  Every index into \<open>m.notifications\<close> that \<open>View\<close> computes: the row loop's
  indices, then the preview lookup \<open>m.notifications[m.cursor]\<close> when the preview is
  shown and the list is not empty.
\<close>

definition viewIndices :: "Model \<Rightarrow> int list" where
  "viewIndices m =
     (case viewWindow m of (start, endIdx) \<Rightarrow>
        [start .. endIdx - 1] @
        (if showPreview m \<and> length (notifications m) > 0 then [cursor m] else []))"

text \<open>
  \<open>View\<close>, up to text layout. With the help line shown, the rendered text is
  split into lines and clipped by \<open>lines[:m.height-1]\<close> when it has more than
  \<open>m.height - 1\<close> lines; the text always has at least one line, so this slice
  panics exactly when \<open>m.height - 1 < 0\<close>.
\<close>

definition View :: "Model \<Rightarrow> panic + Frame" where
  "View m =
     (case viewWindow m of (start, endIdx) \<Rightarrow>
        (case renderRows m [start .. endIdx - 1] of
           Inl p \<Rightarrow> Inl p
         | Inr rs \<Rightarrow>
             (case (if showPreview m \<and> length (notifications m) > 0
                    then map_sum id Some (index_go (notifications m) (cursor m))
                    else Inr None) of
                Inl p \<Rightarrow> Inl p
              | Inr pv \<Rightarrow>
                  (if showHelp m \<and> height m - 1 < 0 then Inl SliceBoundsOutOfRange
                   else Inr \<lparr>frameRows = rs, framePreview = pv,
                             frameHelp = showHelp m\<rparr>))))"

section \<open>The world the program runs in\<close>

text \<open>
  The file system holds, for a path, what \<open>json.NewDecoder(f).Decode(&entry)\<close>
  yields from the file: an entry with its \<open>timestamp\<close> (Unix seconds, an
  \<open>int64\<close>) and its raw \<open>data\<close>, or a decode error. \<open>os.Open\<close> fails on a path with no file. Where the
  source branches on an I/O error (\<open>os.Create\<close>, \<open>Encode\<close>), the world says
  whether the call fails; \<open>os.Rename\<close> and \<open>os.Remove\<close>, whose errors the
  source discards, take effect. The wall clock \<open>now\<close> is in nanoseconds since the
  Unix epoch, as \<open>time.Now\<close> reads it. The remote API answers a \<open>GET\<close> on an
  endpoint with an error text or a list of notifications, and a \<open>PUT\<close> on a path
  with an optional error text; \<open>netlog\<close> records every request sent. The diagnostics of verbose mode and the mutex
  around the cache are not modelled.
\<close>

datatype fileContent = Entry "64 word" string | Undecodable

datatype request = GET string | PUT string

record World =
  files :: "string \<rightharpoonup> fileContent"
  createFails :: "string \<Rightarrow> bool"
  encodeFails :: "string \<Rightarrow> bool"
  now :: int
  ghOnPath :: bool
  clientError :: "string option"
  apiGet :: "string \<Rightarrow> string + Notification list"
  apiPut :: "string \<Rightarrow> string option"
  netlog :: "request list"
  stdout :: "string list"
  stderr :: "string list"

text \<open>What \<open>initConfig\<close> resolves for the cache: whether it is enabled, the
  TTL (a \<open>time.Duration\<close>, in nanoseconds) and the cache directory.\<close>

record Config =
  cacheEnabled :: bool
  cacheDuration :: int
  cacheDir :: string

text \<open>
  \<open>encoding/json\<close> and the formatting of \<open>time\<close> are libraries outside the
  repository; the model takes them as parameters. \<open>Marshal\<close> gives the JSON text
  of a payload or fails; \<open>Unmarshal\<close> gives the payload a JSON text decodes to, or
  fails.
\<close>

record 'v Codec =
  Marshal :: "'v \<Rightarrow> string option"
  Unmarshal :: "string \<Rightarrow> 'v option"

record TimeFmt =
  parseRFC3339 :: "string \<Rightarrow> int option"
  formatRFC3339 :: "int \<Rightarrow> string"
  formatYearMonth :: "int \<Rightarrow> string"

text \<open>The outcome of a call that returns \<open>(value, error)\<close> or ends the process
  through \<open>die\<close> (\<open>os.Exit\<close> with the given code).\<close>

datatype 'a result = Ok 'a | Error string | Exited int

definition eprintln :: "string \<Rightarrow> World \<Rightarrow> World" where
  "eprintln line w = w\<lparr>stderr := stderr w @ [line]\<rparr>"

definition println :: "string \<Rightarrow> World \<Rightarrow> World" where
  "println line w = w\<lparr>stdout := stdout w @ [line]\<rparr>"

text \<open>\<open>die\<close>: \<open>fmt.Fprintln(os.Stderr, "ERROR:", msg)\<close>, then \<open>os.Exit(1)\<close>.\<close>

definition die :: "string \<Rightarrow> World \<Rightarrow> 'a result \<times> World" where
  "die msg w = (Exited 1, eprintln (''ERROR: '' @ msg) w)"

section \<open>Cache store\<close>

text \<open>\<open>filepath.Join(cacheDir, key + ".json")\<close>; the cleaning of the joined path
  is not modelled.\<close>

definition cachePath :: "Config \<Rightarrow> string \<Rightarrow> string" where
  "cachePath cfg key = cacheDir cfg @ ''/'' @ key @ ''.json''"

definition maxDuration :: int where
  "maxDuration = 2 ^ 63 - 1"

definition minDuration :: int where
  "minDuration = - (2 ^ 63)"

text \<open>
  \<open>time.Unix(sec, 0)\<close>: a \<open>Time\<close> holds its seconds counted from year 1 in an
  \<open>int64\<close>, so the library adds 62135596800 to \<open>sec\<close>, and the sum wraps. The
  value here is the instant the \<open>Time\<close> denotes, in seconds since the Unix epoch.
\<close>

definition unixToInternal :: int where
  "unixToInternal = 62135596800"

definition time_UnixTime :: "64 word \<Rightarrow> int" where
  "time_UnixTime sec = sint (sec + word_of_int unixToInternal) - unixToInternal"

text \<open>\<open>time.Since(time.Unix(ts, 0))\<close> at wall-clock time \<open>t\<close>: the difference
  in nanoseconds between \<open>t\<close> and the instant of \<open>time.Unix(ts, 0)\<close>, saturated to
  the range of \<open>time.Duration\<close> (\<open>Time.Sub\<close> returns the least or the greatest
  duration when the difference does not fit), for a clock reading \<open>t\<close> of our
  era, as \<open>time.Now\<close> returns.\<close>

definition time_Since :: "int \<Rightarrow> 64 word \<Rightarrow> int" where
  "time_Since t ts =
     (let d = t - time_UnixTime ts * 1000000000
      in if d > maxDuration then maxDuration
         else if d < minDuration then minDuration else d)"

text \<open>\<open>time.Now().Unix()\<close>, an \<open>int64\<close>.\<close>

definition time_Unix :: "int \<Rightarrow> 64 word" where
  "time_Unix t = word_of_int (t div 1000000000)"

text \<open>
  \<open>cacheGet(key, v)\<close> returns \<open>true\<close> with the payload stored into \<open>v\<close>
  (\<open>Some\<close> payload here) or \<open>false\<close> (\<open>None\<close>).
\<close>

definition cacheGet :: "Config \<Rightarrow> 'v Codec \<Rightarrow> string \<Rightarrow> World \<Rightarrow> 'v option \<times> World" where
  "cacheGet cfg codec key w =
     (if \<not> cacheEnabled cfg then (None, w)
      else
        let path = cachePath cfg key in
        (case files w path of
           None \<Rightarrow> (None, w)
         | Some Undecodable \<Rightarrow> (None, w)
         | Some (Entry ts data) \<Rightarrow>
             if time_Since (now w) ts > cacheDuration cfg
             then (None, w\<lparr>files := (files w)(path := None)\<rparr>)
             else (Unmarshal codec data, w)))"

definition cacheSet :: "Config \<Rightarrow> 'v Codec \<Rightarrow> string \<Rightarrow> 'v \<Rightarrow> World \<Rightarrow> World" where
  "cacheSet cfg codec key v w =
     (if \<not> cacheEnabled cfg then w
      else
        let path = cachePath cfg key in
        (case Marshal codec v of
           None \<Rightarrow> w
         | Some data \<Rightarrow>
             let entry = Entry (time_Unix (now w)) data;
                 tmpPath = path @ ''.tmp''
             in if createFails w tmpPath then w
                else
                  let w1 = w\<lparr>files := (files w)(tmpPath \<mapsto> Undecodable)\<rparr>
                  in if encodeFails w tmpPath
                     then w1\<lparr>files := (files w1)(tmpPath := None)\<rparr>
                     else
                       let w2 = w1\<lparr>files := (files w1)(tmpPath \<mapsto> entry)\<rparr>
                       in w2\<lparr>files := (files w2)(path \<mapsto> entry, tmpPath := None)\<rparr>))"

section \<open>Notification fetcher\<close>

definition fmtBool :: "bool \<Rightarrow> string" where
  "fmtBool b = (if b then ''true'' else ''false'')"

definition endpointOf :: "int \<Rightarrow> bool \<Rightarrow> bool \<Rightarrow> string" where
  "endpointOf pageNum onlyParticipating includeAll =
     ''notifications?per_page='' @ itoa ghNotifyPerPageLimit @ ''&page='' @ itoa pageNum
       @ ''&participating='' @ fmtBool onlyParticipating @ ''&all='' @ fmtBool includeAll"

definition cacheKeyOf :: "int \<Rightarrow> bool \<Rightarrow> bool \<Rightarrow> string" where
  "cacheKeyOf pageNum onlyParticipating includeAll =
     ''notifs_'' @ itoa pageNum @ ''_'' @ fmtBool onlyParticipating @ ''_'' @ fmtBool includeAll"

text \<open>\<open>ghRestApiClient\<close> dies when the client cannot be created.\<close>

definition ghRestApiClient :: "World \<Rightarrow> unit result \<times> World" where
  "ghRestApiClient w =
     (case clientError w of
        None \<Rightarrow> (Ok (), w)
      | Some e \<Rightarrow> die (''failed to create REST client: '' @ e) w)"

definition getNotifs ::
  "Config \<Rightarrow> Notification list Codec \<Rightarrow> int \<Rightarrow> bool \<Rightarrow> bool \<Rightarrow> World
     \<Rightarrow> Notification list result \<times> World" where
  "getNotifs cfg codec pageNum onlyParticipating includeAll w =
     (let endpoint = endpointOf pageNum onlyParticipating includeAll;
          cacheKey = cacheKeyOf pageNum onlyParticipating includeAll
      in case cacheGet cfg codec cacheKey w of
           (Some notifs, w1) \<Rightarrow> (Ok notifs, w1)
         | (None, w1) \<Rightarrow>
             (case ghRestApiClient w1 of
                (Error e, w2) \<Rightarrow> (Error e, w2)
              | (Exited c, w2) \<Rightarrow> (Exited c, w2)
              | (Ok _, w2) \<Rightarrow>
                  let w3 = w2\<lparr>netlog := netlog w2 @ [GET endpoint]\<rparr>
                  in (case apiGet w3 endpoint of
                        Inl e \<Rightarrow> (Error e, w3)
                      | Inr notifs \<Rightarrow> (Ok notifs, cacheSet cfg codec cacheKey notifs w3))))"

text \<open>\<open>strings.Contains(s, substr)\<close>: \<open>substr\<close> occurs in \<open>s\<close> as a contiguous
  run of bytes.\<close>

fun strings_Contains :: "string \<Rightarrow> string \<Rightarrow> bool" where
  "strings_Contains [] substr = (substr = [])"
| "strings_Contains (c # s) substr =
     (prefix substr (c # s) \<or> strings_Contains s substr)"

text \<open>The inner loop of \<open>getNotifications\<close>: each record of the page is skipped
  (\<open>continue\<close>) or appended.\<close>

fun appendKept :: "string \<Rightarrow> string \<Rightarrow> Notification list \<Rightarrow> Notification list \<Rightarrow> Notification list" where
  "appendKept exclusion flt allNotifs [] = allNotifs"
| "appendKept exclusion flt allNotifs (n # ns) =
     (if exclusion \<noteq> [] \<and> strings_Contains (Subject_Title n) exclusion
      then appendKept exclusion flt allNotifs ns
      else if flt \<noteq> [] \<and> \<not> strings_Contains (Subject_Title n) flt
      then appendKept exclusion flt allNotifs ns
      else appendKept exclusion flt (allNotifs @ [n]) ns)"

record LoopState =
  pageNum :: int
  fetchedCount :: int
  allNotifs :: "Notification list"

text \<open>
  One round of the loop of \<open>getNotifications\<close>. The source calls the
  package-level \<open>getNotifs\<close>; here the page source is the first argument, so that
  the loop can be run against a mock remote source as well. A round either
  continues with the next loop state (\<open>Inl\<close>) or ends the loop (\<open>Inr\<close>) with a panic
  or with what the function returns.
\<close>

definition getNotifications_body ::
  "(int \<Rightarrow> bool \<Rightarrow> bool \<Rightarrow> 's \<Rightarrow> Notification list result \<times> 's)
     \<Rightarrow> int \<Rightarrow> bool \<Rightarrow> bool \<Rightarrow> string \<Rightarrow> string \<Rightarrow> LoopState \<Rightarrow> 's
     \<Rightarrow> (LoopState + (panic + Notification list result)) \<times> 's" where
  "getNotifications_body fetch numNotifications onlyParticipating includeAll exclusion flt st s =
     (case fetch (pageNum st) onlyParticipating includeAll s of
        (Error e, s') \<Rightarrow> (Inr (Inr (Error e)), s')
      | (Exited c, s') \<Rightarrow> (Inr (Inr (Exited c)), s')
      | (Ok notifs, s') \<Rightarrow>
          if length notifs = 0 then (Inr (Inr (Ok (allNotifs st))), s')
          else
            let pageSize = min_go (numNotifications - fetchedCount st) ghNotifyPerPageLimit
            in (case (if pageSize < int (length notifs) then slice_to notifs pageSize
                      else Inr notifs) of
                  Inl p \<Rightarrow> (Inr (Inl p), s')
                | Inr notifs' \<Rightarrow>
                    let all' = appendKept exclusion flt (allNotifs st) notifs';
                        fetched' = fetchedCount st + int (length notifs')
                    in if fetched' = numNotifications
                          \<or> int (length notifs') < ghNotifyPerPageLimit
                       then (Inr (Inr (Ok all')), s')
                       else (Inl \<lparr>pageNum = pageNum st + 1, fetchedCount = fetched',
                                  allNotifs = all'\<rparr>, s')))"

text \<open>A round that continues has fetched a full page that still fits below
  \<open>numNotifications\<close>; this is what makes the loop end.\<close>

lemma getNotifications_body_continue:
  assumes "getNotifications_body fetch N p a e f st s = (Inl st', s')"
  shows "fetchedCount st' = fetchedCount st + 50 \<and> fetchedCount st + 50 \<le> N
         \<and> fetchedCount st' \<noteq> N \<and> pageNum st' = pageNum st + 1"
  using assms
  unfolding getNotifications_body_def
  by (auto simp: Let_def min_go_def ghNotifyPerPageLimit_def slice_to_def
           split: prod.splits result.splits if_splits sum.splits)

function getNotifications_loop ::
  "(int \<Rightarrow> bool \<Rightarrow> bool \<Rightarrow> 's \<Rightarrow> Notification list result \<times> 's)
     \<Rightarrow> int \<Rightarrow> bool \<Rightarrow> bool \<Rightarrow> string \<Rightarrow> string \<Rightarrow> LoopState \<Rightarrow> 's
     \<Rightarrow> (panic + Notification list result) \<times> 's" where
  "getNotifications_loop fetch numNotifications onlyParticipating includeAll exclusion flt st s =
     (case getNotifications_body fetch numNotifications onlyParticipating includeAll
             exclusion flt st s of
        (Inr r, s') \<Rightarrow> (r, s')
      | (Inl st', s') \<Rightarrow>
          getNotifications_loop fetch numNotifications onlyParticipating includeAll
            exclusion flt st' s')"
  by pat_completeness auto
termination
  by (relation "measure (\<lambda>(fetch, N, p, a, e, f, st, s). nat (N - fetchedCount st))")
     (auto dest!: getNotifications_body_continue [OF sym])

definition getNotifications ::
  "(int \<Rightarrow> bool \<Rightarrow> bool \<Rightarrow> 's \<Rightarrow> Notification list result \<times> 's)
     \<Rightarrow> int \<Rightarrow> bool \<Rightarrow> bool \<Rightarrow> string \<Rightarrow> string \<Rightarrow> 's
     \<Rightarrow> (panic + Notification list result) \<times> 's" where
  "getNotifications fetch numNotifications onlyParticipating includeAll exclusion flt s =
     getNotifications_loop fetch numNotifications onlyParticipating includeAll exclusion flt
       \<lparr>pageNum = 1, fetchedCount = 0, allNotifs = []\<rparr> s"

text \<open>
  A remote feed served in pages of the fixed page size: page \<open>k\<close> (from 1) holds
  the records \<open>50 (k - 1), \<dots>, 50 k - 1\<close> of the feed, the last page what is left,
  every later page nothing. The state of this page source is the list of the
  pages requested so far.
\<close>

definition servePages ::
  "Notification list \<Rightarrow> int \<Rightarrow> bool \<Rightarrow> bool \<Rightarrow> int list
     \<Rightarrow> Notification list result \<times> int list" where
  "servePages feed k onlyParticipating includeAll requested =
     (Ok (take 50 (drop (50 * nat (k - 1)) feed)), requested @ [k])"

text \<open>
  The filter in the spec's words: a record is dropped iff the exclude pattern is
  not empty and occurs in the title; of the rest, a record is kept iff the
  include pattern is empty or occurs in the title.
\<close>

definition keptBySpec :: "string \<Rightarrow> string \<Rightarrow> Notification \<Rightarrow> bool" where
  "keptBySpec excl incl n \<longleftrightarrow>
     \<not> (excl \<noteq> [] \<and> sublist excl (Subject_Title n))
     \<and> (incl = [] \<or> sublist incl (Subject_Title n))"

text \<open>
  The number of page requests in the spec's words, for \<open>n\<close> records asked of
  \<open>avail\<close> available: \<open>\<lceil>min n avail / 50\<rceil>\<close>, and one more request, answered by
  an empty page, when the feed ends on a page boundary before \<open>n\<close> is reached.
\<close>

definition pageRequests :: "nat \<Rightarrow> nat \<Rightarrow> nat" where
  "pageRequests n avail =
     (min n avail + 49) div 50 + (if avail < n \<and> avail mod 50 = 0 then 1 else 0)"

section \<open>The command\<close>

definition isoTime :: "TimeFmt \<Rightarrow> World \<Rightarrow> string" where
  "isoTime tf w = formatRFC3339 tf (now w)"

definition shortDate :: "TimeFmt \<Rightarrow> string \<Rightarrow> string" where
  "shortDate tf dt =
     (case parseRFC3339 tf dt of None \<Rightarrow> ''2020'' | Some t \<Rightarrow> formatYearMonth tf t)"

text \<open>The last element of \<open>strings.Split(url, "/")\<close>: what follows the last
  slash.\<close>

definition lastPathComponent :: "string \<Rightarrow> string" where
  "lastPathComponent url =
     (if url = [] then [] else rev (takeWhile (\<lambda>c. c \<noteq> CHR ''/'') (rev url)))"

text \<open>
  \<open>markAllRead\<close> builds the map with \<open>last_read_at\<close> and \<open>read\<close>, and calls
  \<open>client.Put("notifications", nil, body)\<close>: the second argument of \<open>Put\<close> is the
  request body and the third the place for the response, so the request is sent
  to the path without a body, and the time given does not reach it.
\<close>

definition markAllRead :: "string \<Rightarrow> World \<Rightarrow> unit result \<times> World" where
  "markAllRead lastReadAt w =
     (case ghRestApiClient w of
        (Error e, w1) \<Rightarrow> (Error e, w1)
      | (Exited c, w1) \<Rightarrow> (Exited c, w1)
      | (Ok _, w1) \<Rightarrow>
          let w2 = w1\<lparr>netlog := netlog w1 @ [PUT ''notifications'']\<rparr>
          in (case apiPut w2 ''notifications'' of
                Some e \<Rightarrow> (Error e, w2)
              | None \<Rightarrow> (Ok (), w2)))"

record Flags =
  exclusion :: string
  filter_flag :: string
  updateSubscriptionURL :: string
  numNotifications :: int
  onlyParticipating :: bool
  includeAll :: bool
  printStatic :: bool
  markRead :: bool

definition installGhMsg :: string where
  "installGhMsg = ''install 'gh'' @ [CHR 0x27]"

definition conflictMsg :: string where
  "conflictMsg = ''Can't mark all notifications as read when either the '--exclude' or '--filter' flag was used, as it would also mark notifications as read that are filtered out.''"

text \<open>One line of the static listing, without its final newline. The glyph of an
  unread record is U+25CF.\<close>

definition staticRow :: "TimeFmt \<Rightarrow> World \<Rightarrow> Notification \<Rightarrow> string" where
  "staticRow tf w n =
     shortDate tf (UpdatedAt n) @ [CHR 0x09] @ isoTime tf w @ [CHR 0x09] @ ID n @ [CHR 0x09]
     @ (if Unread n then ''UNREAD'' else ''READ'') @ [CHR 0x09]
     @ lastPathComponent (Subject_LatestCommentURL n) @ [CHR 0x09]
     @ Repository_FullName n @ [CHR 0x09]
     @ (if Unread n then [CHR 0xE2, CHR 0x97, CHR 0x8F] else '' '') @ [CHR 0x09]
     @ abbreviate (Repository_Owner_Login n) 10 @ ''/'' @ abbreviate (Repository_Name n) 13
     @ [CHR 0x09] @ Subject_Type n @ [CHR 0x09] @ Subject_URL n @ [CHR 0x09] @ Reason n
     @ [CHR 0x09] @ Subject_Title n"

text \<open>
  How the command ends: \<open>os.Exit\<close> with a code, a run-time panic, or the hand-over
  of the model to the interactive program (whose event loop feeds \<open>Update\<close> and
  \<open>View\<close>).
\<close>

datatype ending = ExitCode int | Crashed panic | Interactive Model

text \<open>The \<open>Run\<close> function of the root command, after the flags are parsed.\<close>

definition main_run ::
  "Config \<Rightarrow> Notification list Codec \<Rightarrow> TimeFmt \<Rightarrow> Flags \<Rightarrow> World \<Rightarrow> ending \<times> World" where
  "main_run cfg codec tf fl w =
     (if \<not> ghOnPath w then (ExitCode 1, snd (die installGhMsg w :: unit result \<times> World))
      else if markRead fl then
        (if exclusion fl \<noteq> [] \<or> filter_flag fl \<noteq> []
         then (ExitCode 1, snd (die conflictMsg w :: unit result \<times> World))
         else
           (case markAllRead (isoTime tf w) w of
              (Exited c, w1) \<Rightarrow> (ExitCode c, w1)
            | (Error e, w1) \<Rightarrow>
                (ExitCode 1,
                 snd (die ''Failed to mark notifications as read.'' w1 :: unit result \<times> World))
            | (Ok _, w1) \<Rightarrow>
                (ExitCode 0, println ''All notifications have been marked as read.'' w1)))
      else
        (case getNotifications (getNotifs cfg codec) (numNotifications fl)
                (onlyParticipating fl) (includeAll fl) (exclusion fl) (filter_flag fl) w of
           (Inl p, w1) \<Rightarrow> (Crashed p, w1)
         | (Inr (Exited c), w1) \<Rightarrow> (ExitCode c, w1)
         | (Inr (Error e), w1) \<Rightarrow> (ExitCode 1, snd (die e w1 :: unit result \<times> World))
         | (Inr (Ok notifs), w1) \<Rightarrow>
             if length notifs = 0 then (ExitCode 0, println finalMsg w1)
             else if printStatic fl
             then (ExitCode 0, foldl (\<lambda>w' n. println (staticRow tf w' n) w') w1 notifs)
             else (Interactive (NewModel notifs), w1)))"

section \<open>Sample data\<close>

definition sampleNotification :: "string \<Rightarrow> Notification" where
  "sampleNotification t =
     \<lparr>ID = ''1'', Unread = True, UpdatedAt = ''2025-07-01T10:00:00Z'', LastReadAt = [],
      Repository_FullName = ''owner/repo'', Repository_Owner_Login = ''owner'',
      Repository_Name = ''repo'', Reason = ''mention'', Subject_Type = ''Issue'',
      Subject_Title = t, Subject_URL = ''https://api.github.com/repos/owner/repo/issues/1'',
      Subject_LatestCommentURL = []\<rparr>"

definition sampleModel :: "nat \<Rightarrow> int \<Rightarrow> int \<Rightarrow> Model" where
  "sampleModel len c h =
     \<lparr>notifications = replicate len (sampleNotification ''Fix bug''), cursor = c, width = 80,
      height = h, showPreview = False, showHelp = False\<rparr>"

definition sampleWorld :: World where
  "sampleWorld =
     \<lparr>files = Map.empty, createFails = (\<lambda>_. False), encodeFails = (\<lambda>_. False),
      now = 1500000000, ghOnPath = True, clientError = None,
      apiGet = (\<lambda>_. Inr []), apiPut = (\<lambda>_. None), netlog = [], stdout = [],
      stderr = []\<rparr>"

definition sampleConfig :: Config where
  "sampleConfig = \<lparr>cacheEnabled = True, cacheDuration = 300000000000, cacheDir = ''/tmp/gh-notify''\<rparr>"

definition sampleCodec :: "string Codec" where
  "sampleCodec = \<lparr>Marshal = Some, Unmarshal = Some\<rparr>"

definition sampleFlags :: Flags where
  "sampleFlags =
     \<lparr>exclusion = ''Bug'', filter_flag = [], updateSubscriptionURL = [], numNotifications = 50,
      onlyParticipating = False, includeAll = False, printStatic = False, markRead = True\<rparr>"

definition failingCodec :: "'v Codec" where
  "failingCodec = \<lparr>Marshal = (\<lambda>_. None), Unmarshal = (\<lambda>_. None)\<rparr>"

definition sampleTimeFmt :: TimeFmt where
  "sampleTimeFmt =
     \<lparr>parseRFC3339 = (\<lambda>_. None), formatRFC3339 = (\<lambda>_. ''2025-07-01T10:00:00Z''),
      formatYearMonth = (\<lambda>_. ''2025-07'')\<rparr>"

text \<open>A world whose cache holds one entry, stored at second 1, read at time \<open>t\<close>.\<close>

definition entryWorld :: "int \<Rightarrow> World" where
  "entryWorld t =
     sampleWorld\<lparr>files := [cachePath sampleConfig ''k'' \<mapsto> Entry 1 ''[]''], now := t\<rparr>"

text \<open>A codec for strings that encodes as \<open>encoding/json\<close> encodes a Go string
  holding the byte \<open>0xFF\<close>, which is not valid UTF-8: the byte is replaced by
  U+FFFD (\<open>EF BF BD\<close>).\<close>

definition coercingCodec :: "string Codec" where
  "coercingCodec =
     \<lparr>Marshal = (\<lambda>s. Some (concat (map (\<lambda>c. if c = CHR 0xFF
                                               then [CHR 0xEF, CHR 0xBF, CHR 0xBD] else [c]) s))),
      Unmarshal = Some\<rparr>"

text \<open>A codec for lists of notifications of which only the empty list is
  used: its JSON text is \<open>[]\<close>, and \<open>[]\<close> decodes to it. Every other list fails
  to encode, and every other text fails to decode.\<close>

definition emptyListCodec :: "Notification list Codec" where
  "emptyListCodec =
     \<lparr>Marshal = (\<lambda>ns. if ns = [] then Some ''[]'' else None),
      Unmarshal = (\<lambda>d. if d = ''[]'' then Some [] else None)\<rparr>"

text \<open>A remote API that serves \<open>feed\<close> in pages of 50: the endpoint of page
  \<open>k\<close> is answered with the records \<open>50 (k - 1), \<dots>, 50 k - 1\<close> of the feed, the
  endpoint of a page after the end of the feed, and any other endpoint, with
  the empty list.\<close>

fun pagedApiUpTo :: "Notification list \<Rightarrow> bool \<Rightarrow> bool \<Rightarrow> nat \<Rightarrow> string
    \<Rightarrow> string + Notification list" where
  "pagedApiUpTo feed p a 0 endpoint = Inr []"
| "pagedApiUpTo feed p a (Suc n) endpoint =
     (if endpoint = endpointOf (int (Suc n)) p a then Inr (take 50 (drop (50 * n) feed))
      else pagedApiUpTo feed p a n endpoint)"

definition pagedApi :: "Notification list \<Rightarrow> bool \<Rightarrow> bool \<Rightarrow> string \<Rightarrow> string + Notification list" where
  "pagedApi feed p a = pagedApiUpTo feed p a (length feed div 50 + 1)"

text \<open>A world with an empty cache directory whose remote API serves \<open>feed\<close>.\<close>

definition pagedWorld :: "Notification list \<Rightarrow> World" where
  "pagedWorld feed = sampleWorld\<lparr>apiGet := pagedApi feed False False\<rparr>"

text \<open>The same world after an earlier run at second 1, when the remote feed was
  empty, has left the cache file of page 1.\<close>

definition warmWorld :: "Notification list \<Rightarrow> World" where
  "warmWorld feed =
     (pagedWorld feed)\<lparr>files := [cachePath sampleConfig (cacheKeyOf 1 False False)
                                  \<mapsto> Entry 1 ''[]'']\<rparr>"

text \<open>A remote API that serves four records in pages of two.\<close>

definition shortPageWorld :: World where
  "shortPageWorld =
     sampleWorld\<lparr>apiGet := (\<lambda>endpoint.
        if endpoint = endpointOf 1 False False
        then Inr (map sampleNotification [''a'', ''b''])
        else if endpoint = endpointOf 2 False False
        then Inr (map sampleNotification [''c'', ''d''])
        else Inr [])\<rparr>"

section \<open>Abbreviation\<close>

text \<open>In a string of one-byte characters every byte is a character, so the
  byte counts of the source are character counts; the ellipsis is one
  character.\<close>

lemma runeCount_ASCII: "isASCII s \<Longrightarrow> runeCount s = length s"
  by (induction s) (auto simp: isASCII_def runeCount_def isContinuationByte_def)

lemma isASCII_take: "isASCII s \<Longrightarrow> isASCII (take n s)"
  unfolding isASCII_def list_all_iff by (auto dest: in_set_takeD)

lemma runeCount_append: "runeCount (xs @ ys) = runeCount xs + runeCount ys"
  by (simp add: runeCount_def)

lemma runeCount_ellipsis: "runeCount ellipsis = 1"
  by (simp add: runeCount_def ellipsis_def isContinuationByte_def)

text \<open>
  Claim C7, as amended. For every limit \<open>mx\<close> and every string \<open>s\<close> of
  one-byte characters: \<open>abbreviate s mx\<close> is \<open>s\<close> when \<open>mx \<le> 1\<close> or when \<open>s\<close>
  is not longer than \<open>mx\<close>; otherwise it is the first \<open>mx - 1\<close> characters of
  \<open>s\<close> followed by one ellipsis character, \<open>mx\<close> characters in all. (For
  \<open>mx \<le> 1\<close> the result is \<open>s\<close> whatever the bytes of \<open>s\<close>.) In particular
  \<open>abbreviate ''hello world'' 5\<close> is \<open>''hell''\<close> with the ellipsis, and
  \<open>abbreviate ''hi'' 5\<close> is \<open>''hi''\<close>.
\<close>

theorem abbreviate_cases:
  "(mx \<le> 1 \<longrightarrow> abbreviate s mx = s)
   \<and> (isASCII s \<longrightarrow>
        (int (runeCount s) \<le> mx \<longrightarrow> abbreviate s mx = s)
      \<and> (1 < mx \<and> mx < int (runeCount s) \<longrightarrow>
           abbreviate s mx = take (nat (mx - 1)) s @ ellipsis
           \<and> runeCount (take (nat (mx - 1)) s) = nat (mx - 1)
           \<and> runeCount ellipsis = 1
           \<and> runeCount (abbreviate s mx) = nat mx))"
proof (intro conjI impI)
  assume "mx \<le> 1" then show "abbreviate s mx = s" by (simp add: abbreviate_def)
next
  assume "isASCII s" and "int (runeCount s) \<le> mx"
  then show "abbreviate s mx = s" by (simp add: abbreviate_def runeCount_ASCII)
next
  assume a: "isASCII s" and m: "1 < mx \<and> mx < int (runeCount s)"
  then have l: "mx < int (length s)" by (simp add: runeCount_ASCII)
  show e: "abbreviate s mx = take (nat (mx - 1)) s @ ellipsis"
    using m l by (simp add: abbreviate_def)
  show t: "runeCount (take (nat (mx - 1)) s) = nat (mx - 1)"
    using runeCount_ASCII [OF isASCII_take [OF a, of "nat (mx - 1)"]] m l by simp
  show "runeCount ellipsis = 1" by (rule runeCount_ellipsis)
  show "runeCount (abbreviate s mx) = nat mx"
    unfolding e runeCount_append t runeCount_ellipsis using m by linarith
qed

theorem abbreviate_cases_witness:
  "isASCII ''hello world'' \<and> (1::int) < 5 \<and> 5 < int (runeCount ''hello world'')
   \<and> abbreviate ''hello world'' 5 = ''hell'' @ ellipsis
   \<and> isASCII ''hi'' \<and> int (runeCount ''hi'') \<le> 5 \<and> abbreviate ''hi'' 5 = ''hi''
   \<and> (0::int) \<le> 1 \<and> abbreviate ''hello'' 0 = ''hello''"
  using abbreviate_cases [of 5 "''hello world''"] abbreviate_cases [of 5 "''hi''"]
    abbreviate_cases [of 0 "''hello''"]
  by (simp add: isASCII_def runeCount_def isContinuationByte_def)

text \<open>Claim C7 as stated fails at the limit 1: \<open>''hello''\<close>, five one-byte
  characters, is longer than 1, and the result is \<open>''hello''\<close>, not the first 0
  characters followed by an ellipsis.\<close>

theorem abbreviate_guard_counterexample:
  "isASCII ''hello'' \<and> \<not> int (runeCount ''hello'') \<le> 1
   \<and> abbreviate ''hello'' 1 = ''hello''
   \<and> abbreviate ''hello'' 1 \<noteq> take (nat (1 - 1)) ''hello'' @ ellipsis"
  by (simp add: abbreviate_def ellipsis_def isASCII_def runeCount_def isContinuationByte_def)

text \<open>
  The restriction to one-byte characters is needed: \<open>len(s)\<close> and
  \<open>s[:max-1]\<close> count bytes. The string \<open>h\<close>, \<open>C3 A9\<close> (e with acute accent),
  \<open>l\<close>, \<open>l\<close>, \<open>o\<close> has five characters in six bytes; at the limit 5 it is not
  returned unchanged, and at the limit 3 the cut falls inside the two-byte
  character.
\<close>

lemma abbreviate_cuts_inside_character:
  "runeCount [CHR ''h'', CHR 0xC3, CHR 0xA9, CHR ''l'', CHR ''l'', CHR ''o''] = 5
   \<and> abbreviate [CHR ''h'', CHR 0xC3, CHR 0xA9, CHR ''l'', CHR ''l'', CHR ''o''] 5
       = [CHR ''h'', CHR 0xC3, CHR 0xA9, CHR ''l''] @ ellipsis
   \<and> abbreviate [CHR ''h'', CHR 0xC3, CHR 0xA9, CHR ''l'', CHR ''l'', CHR ''o''] 3
       = [CHR ''h'', CHR 0xC3] @ ellipsis"
  by (simp add: abbreviate_def runeCount_def isContinuationByte_def)

section \<open>Navigation\<close>

text \<open>
  Claim C6. In every navigation state (the cursor is an index of the list,
  \<open>0 \<le> cursor < length\<close>), the keys for move-up set the cursor to
  \<open>max (cursor - 1) 0\<close> and the keys for move-down set it to
  \<open>min (cursor + 1) (length - 1)\<close>; nothing else of the state changes and no
  command is issued.
\<close>

theorem Update_cursor_clamped:
  assumes "0 \<le> cursor m" and "cursor m < int (length (notifications m))"
  shows "(k \<in> {''up'', ''k''} \<longrightarrow>
            Update m (KeyMsg k) = (m\<lparr>cursor := max (cursor m - 1) 0\<rparr>, NoCmd))
       \<and> (k \<in> {''down'', ''j''} \<longrightarrow>
            Update m (KeyMsg k) =
              (m\<lparr>cursor := min (cursor m + 1) (int (length (notifications m)) - 1)\<rparr>,
               NoCmd))"
  using assms by (auto simp: Update_def max_def min_def)

theorem Update_cursor_clamped_witness:
  "cursor (sampleModel 5 0 24) = 0 \<and> length (notifications (sampleModel 5 0 24)) = 5
   \<and> cursor (fst (Update (sampleModel 5 0 24) (KeyMsg ''up''))) = 0
   \<and> cursor (sampleModel 5 4 24) = 4 \<and> length (notifications (sampleModel 5 4 24)) = 5
   \<and> cursor (fst (Update (sampleModel 5 4 24) (KeyMsg ''down''))) = 4"
  using Update_cursor_clamped [of "sampleModel 5 0 24" "''up''"]
    Update_cursor_clamped [of "sampleModel 5 4 24" "''down''"]
  by (simp add: sampleModel_def)

text \<open>The states the program can reach satisfy the invariant: \<open>main\<close> builds the
  model on a list that is not empty, and no message moves the cursor out of the
  list or changes the list.\<close>

lemma NewModel_cursor_in_range:
  "notifs \<noteq> [] \<Longrightarrow>
   0 \<le> cursor (NewModel notifs)
   \<and> cursor (NewModel notifs) < int (length (notifications (NewModel notifs)))"
  by (simp add: NewModel_def)

lemma Update_cursor_cases:
  "notifications (fst (Update m msg)) = notifications m
   \<and> (cursor (fst (Update m msg)) = cursor m
      \<or> 0 < cursor m \<and> cursor (fst (Update m msg)) = cursor m - 1
      \<or> cursor m < int (length (notifications m)) - 1
          \<and> cursor (fst (Update m msg)) = cursor m + 1)"
  by (cases msg) (simp_all add: Update_def)

lemma Update_cursor_in_range:
  "0 \<le> cursor m \<Longrightarrow> cursor m < int (length (notifications m)) \<Longrightarrow>
   0 \<le> cursor (fst (Update m msg))
   \<and> cursor (fst (Update m msg)) < int (length (notifications (fst (Update m msg))))"
  using Update_cursor_cases [of m msg] by auto

lemma reachable_cursor_in_range:
  "notifs \<noteq> [] \<Longrightarrow>
   0 \<le> cursor (foldl (\<lambda>m msg. fst (Update m msg)) (NewModel notifs) msgs)
   \<and> cursor (foldl (\<lambda>m msg. fst (Update m msg)) (NewModel notifs) msgs)
       < int (length (notifications (foldl (\<lambda>m msg. fst (Update m msg)) (NewModel notifs) msgs)))"
proof (induction msgs rule: rev_induct)
  case Nil
  then show ?case using NewModel_cursor_in_range by simp
next
  case (snoc msg msgs)
  then show ?case
    using Update_cursor_in_range
      [of "foldl (\<lambda>m msg. fst (Update m msg)) (NewModel notifs) msgs" msg]
    by simp
qed

section \<open>Viewport\<close>

text \<open>
  Claim C5, as amended. Let \<open>c\<close> be the cursor, \<open>L\<close> the length of the list and
  \<open>h\<close> the viewport height (\<open>entriesHeight\<close>), with \<open>0 \<le> c < L\<close>. When \<open>h \<le> 0\<close>
  or \<open>L \<le> h\<close> the window is the whole list. When \<open>0 < h < L\<close>: the window is
  \<open>[0, h)\<close> if \<open>c < h div 2\<close>; it is the last window \<open>[L - h, L)\<close> if
  \<open>c > L - h div 2\<close>; otherwise, when the window of height \<open>h\<close> that starts at
  \<open>c - h div 2\<close> ends within the list, it is that window. In every case the
  cursor lies inside the window.
\<close>

theorem viewWindow_scroll_policy:
  assumes "c = cursor m" and "L = int (length (notifications m))" and "h = entriesHeight m"
    and "0 \<le> c" and "c < L"
  shows "(h \<le> 0 \<or> L \<le> h \<longrightarrow> viewWindow m = (0, L))
       \<and> (0 < h \<and> h < L \<longrightarrow>
            (c < h div 2 \<longrightarrow> viewWindow m = (0, h))
          \<and> (h div 2 \<le> c \<and> L - h div 2 < c \<longrightarrow> viewWindow m = (L - h, L))
          \<and> (h div 2 \<le> c \<and> c \<le> L - h div 2 \<and> c - h div 2 + h \<le> L \<longrightarrow>
               viewWindow m = (c - h div 2, c - h div 2 + h)))
       \<and> fst (viewWindow m) \<le> c \<and> c < snd (viewWindow m)"
  using assms by (auto simp: viewWindow_def Let_def)

theorem viewWindow_scroll_policy_witness:
  "viewWindow (sampleModel 10 5 7) = (3, 7) \<and> viewWindow (sampleModel 10 1 7) = (0, 4)
   \<and> viewWindow (sampleModel 10 9 7) = (6, 10) \<and> viewWindow (sampleModel 10 9 3) = (0, 10)"
  using viewWindow_scroll_policy [of 5 "sampleModel 10 5 7" 10 4]
    viewWindow_scroll_policy [of 1 "sampleModel 10 1 7" 10 4]
    viewWindow_scroll_policy [of 9 "sampleModel 10 9 7" 10 4]
    viewWindow_scroll_policy [of 9 "sampleModel 10 9 3" 10 0]
  by (simp add: sampleModel_def entriesHeight_def headerLines_def)

text \<open>Claim C5 as stated fails for a viewport height that is not positive: with a
  terminal of 3 lines the viewport height is 0, the list of 2 records is longer,
  and the window is the whole list \<open>[0, 2)\<close>, which is none of the three windows
  of height 0 that the claim allows.\<close>

theorem viewWindow_small_height_counterexample:
  "entriesHeight (sampleModel 2 0 3) = 0
   \<and> int (length (notifications (sampleModel 2 0 3))) = 2
   \<and> cursor (sampleModel 2 0 3) = 0
   \<and> viewWindow (sampleModel 2 0 3) = (0, 2)
   \<and> viewWindow (sampleModel 2 0 3) \<noteq> (0, 0)
   \<and> viewWindow (sampleModel 2 0 3) \<noteq> (2 - 0, 2)
   \<and> viewWindow (sampleModel 2 0 3) \<noteq> (0 - 0 div 2, 0 - 0 div 2 + 0)"
  by (simp add: sampleModel_def entriesHeight_def headerLines_def viewWindow_def)

text \<open>
  Claim C9, at the input where the source breaks it. With 4 records, the cursor
  on the last one and a terminal of 6 lines (viewport height 3), the cursor is
  neither below \<open>3 div 2\<close> nor above \<open>4 - 3 div 2\<close>, so the window is centred:
  \<open>[2, 5)\<close>. The row loop then reads index 4 of a list of length 4 and panics.
\<close>

theorem View_reads_past_the_list:
  "length (notifications (sampleModel 4 3 6)) = 4
   \<and> cursor (sampleModel 4 3 6) = 3
   \<and> viewWindow (sampleModel 4 3 6) = (2, 5)
   \<and> viewIndices (sampleModel 4 3 6) = [2, 3, 4]
   \<and> View (sampleModel 4 3 6) = Inl IndexOutOfRange"
  by (simp add: sampleModel_def entriesHeight_def headerLines_def viewWindow_def
      viewIndices_def View_def index_go_def upto.simps)

text \<open>That input is typical of the only way the row loop leaves the list: for a
  cursor inside the list, \<open>View\<close> panics on an index iff the list is longer than
  an odd viewport height \<open>h\<close> and the cursor is at \<open>L - h div 2\<close>.\<close>

lemma renderRows_in_range:
  "\<forall>i \<in> set is. 0 \<le> i \<and> i < int (length (notifications m)) \<Longrightarrow>
   renderRows m is = Inr (map (\<lambda>i. renderRow m i (notifications m ! nat i)) is)"
  by (induction "is") (auto simp: index_go_def)

lemma renderRows_out_of_range:
  "\<exists>i \<in> set is. \<not> (0 \<le> i \<and> i < int (length (notifications m))) \<Longrightarrow>
   renderRows m is = Inl IndexOutOfRange"
  by (induction "is") (auto simp: index_go_def)

lemma viewWindow_in_list:
  assumes "0 \<le> cursor m" and "cursor m < int (length (notifications m))"
    and "\<not> (0 < entriesHeight m \<and> entriesHeight m < int (length (notifications m))
            \<and> odd (entriesHeight m)
            \<and> cursor m = int (length (notifications m)) - entriesHeight m div 2)"
  shows "0 \<le> fst (viewWindow m) \<and> snd (viewWindow m) \<le> int (length (notifications m))"
  using assms by (auto simp: viewWindow_def Let_def)

lemma View_index_panic_iff:
  assumes "0 \<le> cursor m" and "cursor m < int (length (notifications m))"
  shows "View m = Inl IndexOutOfRange \<longleftrightarrow>
           0 < entriesHeight m \<and> entriesHeight m < int (length (notifications m))
           \<and> odd (entriesHeight m)
           \<and> cursor m = int (length (notifications m)) - entriesHeight m div 2"
proof
  assume "View m = Inl IndexOutOfRange"
  show "0 < entriesHeight m \<and> entriesHeight m < int (length (notifications m))
           \<and> odd (entriesHeight m)
           \<and> cursor m = int (length (notifications m)) - entriesHeight m div 2"
  proof (rule ccontr)
    assume ns: "\<not> ?thesis"
    obtain start endIdx where w: "viewWindow m = (start, endIdx)" by (cases "viewWindow m")
    have "0 \<le> start \<and> endIdx \<le> int (length (notifications m))"
      using viewWindow_in_list [OF assms ns] w by simp
    then have "\<forall>i \<in> set [start .. endIdx - 1]. 0 \<le> i \<and> i < int (length (notifications m))"
      by auto
    then have "\<exists>rs. renderRows m [start .. endIdx - 1] = Inr rs"
      using renderRows_in_range by blast
    then have "View m \<noteq> Inl IndexOutOfRange"
      using assms by (auto simp: View_def w index_go_def split: if_splits)
    then show False using \<open>View m = Inl IndexOutOfRange\<close> by simp
  qed
next
  assume slip: "0 < entriesHeight m \<and> entriesHeight m < int (length (notifications m))
           \<and> odd (entriesHeight m)
           \<and> cursor m = int (length (notifications m)) - entriesHeight m div 2"
  let ?L = "int (length (notifications m))"
  let ?h = "entriesHeight m"
  have "?h div 2 \<ge> 1" using slip assms by linarith
  then have w: "viewWindow m = (cursor m - ?h div 2, cursor m - ?h div 2 + ?h)"
    using slip by (auto simp: viewWindow_def Let_def)
  have "cursor m - ?h div 2 + ?h = ?L + 1" using slip by presburger
  moreover have "cursor m - ?h div 2 \<le> ?L" using slip by linarith
  ultimately have "?L \<in> set [cursor m - ?h div 2 .. cursor m - ?h div 2 + ?h - 1]" by simp
  then have "renderRows m [cursor m - ?h div 2 .. cursor m - ?h div 2 + ?h - 1]
      = Inl IndexOutOfRange"
    by (intro renderRows_out_of_range) (rule bexI [where x = ?L], simp_all)
  then show "View m = Inl IndexOutOfRange" by (simp add: View_def w)
qed

text \<open>\<open>View\<close> panics on an index exactly when one of the indices it computes is
  outside the list.\<close>

lemma View_index_panic_indices:
  "View m = Inl IndexOutOfRange \<longleftrightarrow>
     (\<exists>i \<in> set (viewIndices m). \<not> (0 \<le> i \<and> i < int (length (notifications m))))"
proof -
  obtain start endIdx where w: "viewWindow m = (start, endIdx)" by (cases "viewWindow m")
  show ?thesis
  proof (cases "\<forall>i \<in> set [start .. endIdx - 1]. 0 \<le> i \<and> i < int (length (notifications m))")
    case True
    then have "renderRows m [start .. endIdx - 1]
        = Inr (map (\<lambda>i. renderRow m i (notifications m ! nat i)) [start .. endIdx - 1])"
      by (rule renderRows_in_range)
    then show ?thesis
      using True by (auto simp: View_def viewIndices_def w index_go_def split: if_splits)
  next
    case False
    then have "renderRows m [start .. endIdx - 1] = Inl IndexOutOfRange"
      by (intro renderRows_out_of_range) blast
    then show ?thesis
      using False by (auto simp: View_def viewIndices_def w)
  qed
qed

section \<open>Cache\<close>

text \<open>
  The instant of \<open>time.Unix(ts, 0)\<close> is second \<open>ts\<close> unless adding 62135596800
  to \<open>ts\<close> leaves the range of \<open>int64\<close>; then \<open>time.Since\<close> of it is the
  difference to the clock, unless the difference leaves the range of
  \<open>time.Duration\<close>. Saturation does not change the comparison with a TTL
  below the greatest duration. After a write at \<open>t0\<close> the age measured at \<open>t\<close>
  is the time elapsed since the write plus the part of a second that
  \<open>time.Now().Unix()\<close> has cut off the stored timestamp.
\<close>

lemma time_UnixTime_exact:
  assumes "sint ts \<le> 2 ^ 63 - 1 - unixToInternal"
  shows "time_UnixTime ts = sint ts"
proof -
  have k: "sint (word_of_int unixToInternal :: 64 word) = unixToInternal"
    by (simp add: unixToInternal_def)
  have lo: "- (2 ^ 63) \<le> sint ts" using sint_ge [of ts] by simp
  have "sint (ts + word_of_int unixToInternal)
          = signed_take_bit 63 (sint ts + unixToInternal)"
    by (simp add: sint_word_ariths k)
  also have "\<dots> = sint ts + unixToInternal"
    using assms lo by (intro signed_take_bit_int_eq_self) (simp_all add: unixToInternal_def)
  finally show ?thesis by (simp add: time_UnixTime_def)
qed

lemma time_Since_exact:
  assumes "sint ts \<le> 2 ^ 63 - 1 - unixToInternal"
    and "minDuration \<le> t - sint ts * 1000000000" and "t - sint ts * 1000000000 \<le> maxDuration"
  shows "time_Since t ts = t - sint ts * 1000000000"
  using assms(2,3) by (simp add: time_Since_def Let_def time_UnixTime_exact [OF assms(1)])

lemma time_Since_le_iff:
  assumes "sint ts \<le> 2 ^ 63 - 1 - unixToInternal"
    and "minDuration \<le> d" and "d < maxDuration"
  shows "time_Since t ts \<le> d \<longleftrightarrow> t - sint ts * 1000000000 \<le> d"
  using assms(2,3) by (auto simp: time_Since_def Let_def time_UnixTime_exact [OF assms(1)])

lemma sint_time_Unix:
  assumes "0 \<le> t" and "t \<le> maxDuration"
  shows "sint (time_Unix t) = t div 1000000000"
proof -
  have "0 \<le> t div 1000000000" using assms(1) by simp
  moreover have "t div 1000000000 \<le> t" using zdiv_mono2 [of t 1 1000000000] assms(1) by simp
  ultimately have "- (2 ^ 63) \<le> t div 1000000000" "t div 1000000000 < 2 ^ 63"
    using assms(2) by (simp_all add: maxDuration_def)
  then have "signed_take_bit 63 (t div 1000000000) = t div 1000000000"
    by (intro signed_take_bit_int_eq_self) simp_all
  then show ?thesis by (simp add: time_Unix_def sint_sbintrunc')
qed

lemma time_Since_after_write:
  assumes "0 \<le> t0" and "t0 \<le> t" and "t \<le> maxDuration"
  shows "time_Since t (time_Unix t0) = (t - t0) + t0 mod 1000000000"
proof -
  have t0: "t0 \<le> maxDuration" using assms by linarith
  have s: "sint (time_Unix t0) = t0 div 1000000000" by (rule sint_time_Unix [OF assms(1) t0])
  have m: "t0 div 1000000000 * 1000000000 = t0 - t0 mod 1000000000"
    by (simp add: minus_mod_eq_div_mult)
  have r: "0 \<le> t0 mod 1000000000" "t0 mod 1000000000 \<le> t0"
    using assms(1) by (simp_all add: zmod_le_nonneg_dividend)
  have nw: "sint (time_Unix t0) \<le> 2 ^ 63 - 1 - unixToInternal"
  proof -
    have "t0 div 1000000000 \<le> 9223372036854775807 div 1000000000"
      using t0 by (intro zdiv_mono1) (simp_all add: maxDuration_def)
    then show ?thesis by (simp add: s unixToInternal_def)
  qed
  have "time_Since t (time_Unix t0) = t - sint (time_Unix t0) * 1000000000"
    using assms r by (intro time_Since_exact [OF nw]) (simp_all add: s m minDuration_def)
  then show ?thesis by (simp add: s m)
qed

text \<open>
  Claim C1, as amended. Let the file of \<open>key\<close> hold a well-formed entry stored at
  \<open>storedAt\<close> whose data decode to \<open>payload\<close>, and let the elapsed time be
  \<open>time.Since(time.Unix(storedAt, 0))\<close>. When the cache is enabled, \<open>cacheGet\<close>
  returns the payload iff the elapsed time is at most \<open>cacheDuration\<close>, and then
  changes nothing; when the elapsed time is greater it returns a miss and
  removes the file of that key. When the cache is disabled, \<open>cacheGet\<close> returns a
  miss and changes nothing. Whenever \<open>storedAt + 62135596800\<close> fits an \<open>int64\<close>,
  the elapsed time is at most a TTL below the greatest duration iff
  \<open>now - storedAt\<close> (in nanoseconds) is, and it is \<open>now - storedAt\<close> when that
  fits a \<open>time.Duration\<close>.
\<close>

theorem cacheGet_ttl:
  assumes "files w (cachePath cfg key) = Some (Entry storedAt data)"
    and "Unmarshal codec data = Some payload"
  shows "(cacheEnabled cfg \<longrightarrow>
            (fst (cacheGet cfg codec key w) = Some payload
               \<longleftrightarrow> time_Since (now w) storedAt \<le> cacheDuration cfg)
          \<and> (time_Since (now w) storedAt \<le> cacheDuration cfg \<longrightarrow>
               snd (cacheGet cfg codec key w) = w)
          \<and> (time_Since (now w) storedAt > cacheDuration cfg \<longrightarrow>
               cacheGet cfg codec key w
                 = (None, w\<lparr>files := (files w)(cachePath cfg key := None)\<rparr>)))
       \<and> (\<not> cacheEnabled cfg \<longrightarrow> cacheGet cfg codec key w = (None, w))
       \<and> (sint storedAt \<le> 2 ^ 63 - 1 - unixToInternal
            \<and> minDuration \<le> cacheDuration cfg \<and> cacheDuration cfg < maxDuration \<longrightarrow>
            (time_Since (now w) storedAt \<le> cacheDuration cfg
               \<longleftrightarrow> now w - sint storedAt * 1000000000 \<le> cacheDuration cfg))
       \<and> (sint storedAt \<le> 2 ^ 63 - 1 - unixToInternal
            \<and> minDuration \<le> now w - sint storedAt * 1000000000
            \<and> now w - sint storedAt * 1000000000 \<le> maxDuration \<longrightarrow>
            time_Since (now w) storedAt = now w - sint storedAt * 1000000000)"
proof (intro conjI impI)
  assume "cacheEnabled cfg"
  then show "fst (cacheGet cfg codec key w) = Some payload
               \<longleftrightarrow> time_Since (now w) storedAt \<le> cacheDuration cfg"
    using assms by (simp add: cacheGet_def Let_def)
next
  assume "cacheEnabled cfg" and "time_Since (now w) storedAt \<le> cacheDuration cfg"
  then show "snd (cacheGet cfg codec key w) = w"
    using assms by (simp add: cacheGet_def Let_def)
next
  assume "cacheEnabled cfg" and "time_Since (now w) storedAt > cacheDuration cfg"
  then show "cacheGet cfg codec key w
                 = (None, w\<lparr>files := (files w)(cachePath cfg key := None)\<rparr>)"
    using assms by (simp add: cacheGet_def Let_def)
next
  assume "\<not> cacheEnabled cfg"
  then show "cacheGet cfg codec key w = (None, w)" by (simp add: cacheGet_def)
next
  assume "sint storedAt \<le> 2 ^ 63 - 1 - unixToInternal
            \<and> minDuration \<le> cacheDuration cfg \<and> cacheDuration cfg < maxDuration"
  then show "time_Since (now w) storedAt \<le> cacheDuration cfg
               \<longleftrightarrow> now w - sint storedAt * 1000000000 \<le> cacheDuration cfg"
    by (intro time_Since_le_iff) simp_all
next
  assume "sint storedAt \<le> 2 ^ 63 - 1 - unixToInternal
            \<and> minDuration \<le> now w - sint storedAt * 1000000000
            \<and> now w - sint storedAt * 1000000000 \<le> maxDuration"
  then show "time_Since (now w) storedAt = now w - sint storedAt * 1000000000"
    by (intro time_Since_exact) simp_all
qed

theorem cacheGet_ttl_witness:
  "files (entryWorld 301000000000) (cachePath sampleConfig ''k'') = Some (Entry 1 ''[]'')
   \<and> Unmarshal sampleCodec ''[]'' = Some ''[]''
   \<and> 301000000000 - sint (1 :: 64 word) * 1000000000 \<le> cacheDuration sampleConfig
   \<and> fst (cacheGet sampleConfig sampleCodec ''k'' (entryWorld 301000000000)) = Some ''[]''
   \<and> time_Since 301000000000 1 = 300000000000
   \<and> cacheGet sampleConfig sampleCodec ''k'' (entryWorld 301000000001)
       = (None, (entryWorld 301000000001)\<lparr>files := Map.empty\<rparr>)
   \<and> time_Since 301000000001 1 = 300000000001
   \<and> cacheGet (sampleConfig\<lparr>cacheEnabled := False\<rparr>) sampleCodec ''k''
        (entryWorld 301000000000)
       = (None, entryWorld 301000000000)"
  using cacheGet_ttl [of "entryWorld 301000000000" sampleConfig "''k''" 1 "''[]''"
      sampleCodec "''[]''"]
    cacheGet_ttl [of "entryWorld 301000000001" sampleConfig "''k''" 1 "''[]''"
      sampleCodec "''[]''"]
    cacheGet_ttl [of "entryWorld 301000000000" "sampleConfig\<lparr>cacheEnabled := False\<rparr>"
      "''k''" 1 "''[]''" sampleCodec "''[]''"]
  by (simp add: entryWorld_def sampleWorld_def sampleConfig_def sampleCodec_def
      time_Since_def time_UnixTime_def unixToInternal_def maxDuration_def minDuration_def
      cachePath_def)

text \<open>Claim C1 as stated fails for a disabled cache: the key holds a well-formed
  entry that is one second old, within the five minutes of \<open>cacheDuration\<close>, and
  \<open>cacheGet\<close> returns a miss.\<close>

theorem cacheGet_disabled_counterexample:
  "files (entryWorld 2000000000) (cachePath (sampleConfig\<lparr>cacheEnabled := False\<rparr>) ''k'')
     = Some (Entry 1 ''[]'')
   \<and> Unmarshal sampleCodec ''[]'' = Some ''[]''
   \<and> now (entryWorld 2000000000) - 1 * 1000000000 = 1000000000
   \<and> time_Since (now (entryWorld 2000000000)) 1 = 1000000000
   \<and> 1000000000 \<le> cacheDuration (sampleConfig\<lparr>cacheEnabled := False\<rparr>)
   \<and> fst (cacheGet (sampleConfig\<lparr>cacheEnabled := False\<rparr>) sampleCodec ''k''
            (entryWorld 2000000000)) = None"
  by (simp add: entryWorld_def sampleWorld_def sampleConfig_def sampleCodec_def
      time_Since_def time_UnixTime_def unixToInternal_def maxDuration_def minDuration_def
      cacheGet_def cachePath_def)

text \<open>A timestamp within 62135596800 of the greatest \<open>int64\<close> wraps in
  \<open>time.Unix\<close>: the entry is stored in the far future, \<open>now - storedAt\<close> is
  negative, and yet the elapsed time is the greatest duration; \<open>cacheGet\<close>
  returns a miss and removes the file.\<close>

lemma cacheGet_timestamp_wraps:
  "sint (9223372036854775807 :: 64 word) = 9223372036854775807
   \<and> now sampleWorld - sint (9223372036854775807 :: 64 word) * 1000000000
       \<le> cacheDuration sampleConfig
   \<and> time_UnixTime 9223372036854775807 = - 9223372036854775809
   \<and> time_Since (now sampleWorld) 9223372036854775807 = maxDuration
   \<and> cacheGet sampleConfig sampleCodec ''k''
        (sampleWorld\<lparr>files := [cachePath sampleConfig ''k'' \<mapsto> Entry 9223372036854775807 ''[]'']\<rparr>)
       = (None, sampleWorld\<lparr>files := Map.empty\<rparr>)"
  by (simp add: sampleWorld_def sampleConfig_def sampleCodec_def cacheGet_def cachePath_def
      time_Since_def time_UnixTime_def unixToInternal_def maxDuration_def minDuration_def)

text \<open>
  Claim C4, as amended. With the cache enabled, for every payload that
  \<open>encoding/json\<close> reads back from its own encoding (\<open>Marshal\<close> succeeds and
  \<open>Unmarshal\<close> gives the payload from its text) and that \<open>cacheSet\<close> writes
  (creating and encoding the temporary file succeed), \<open>cacheGet\<close> for the same
  key at clock reading \<open>t\<close> returns exactly that payload when the age of the
  stored timestamp is within the TTL, and a miss when it is not. The stored
  timestamp is the write time cut to whole seconds, so that age is the time
  elapsed since the write plus the sub-second part of the write time.
\<close>

theorem cache_roundtrip:
  assumes "cacheEnabled cfg"
    and "Marshal codec v = Some data" and "Unmarshal codec data = Some v"
    and "\<not> createFails w (cachePath cfg key @ ''.tmp'')"
    and "\<not> encodeFails w (cachePath cfg key @ ''.tmp'')"
  shows "(time_Since t (time_Unix (now w)) \<le> cacheDuration cfg \<longrightarrow>
            fst (cacheGet cfg codec key ((cacheSet cfg codec key v w)\<lparr>now := t\<rparr>)) = Some v)
       \<and> (time_Since t (time_Unix (now w)) > cacheDuration cfg \<longrightarrow>
            fst (cacheGet cfg codec key ((cacheSet cfg codec key v w)\<lparr>now := t\<rparr>)) = None)
       \<and> (0 \<le> now w \<and> now w \<le> t \<and> t \<le> maxDuration \<longrightarrow>
            time_Since t (time_Unix (now w)) = (t - now w) + now w mod 1000000000)"
proof (intro conjI impI)
  assume "time_Since t (time_Unix (now w)) \<le> cacheDuration cfg"
  then show "fst (cacheGet cfg codec key ((cacheSet cfg codec key v w)\<lparr>now := t\<rparr>)) = Some v"
    using assms by (simp add: cacheGet_def cacheSet_def Let_def)
next
  assume "time_Since t (time_Unix (now w)) > cacheDuration cfg"
  then show "fst (cacheGet cfg codec key ((cacheSet cfg codec key v w)\<lparr>now := t\<rparr>)) = None"
    using assms by (simp add: cacheGet_def cacheSet_def Let_def)
next
  assume "0 \<le> now w \<and> now w \<le> t \<and> t \<le> maxDuration"
  then show "time_Since t (time_Unix (now w)) = (t - now w) + now w mod 1000000000"
    by (intro time_Since_after_write) simp_all
qed

theorem cache_roundtrip_witness:
  "cacheEnabled sampleConfig \<and> Marshal sampleCodec ''[1,2]'' = Some ''[1,2]''
   \<and> Unmarshal sampleCodec ''[1,2]'' = Some ''[1,2]''
   \<and> time_Since 2000000000 (time_Unix (now sampleWorld)) = 1000000000
   \<and> 1000000000 \<le> cacheDuration sampleConfig
   \<and> fst (cacheGet sampleConfig sampleCodec ''k''
            ((cacheSet sampleConfig sampleCodec ''k'' ''[1,2]'' sampleWorld)
               \<lparr>now := 2000000000\<rparr>))
       = Some ''[1,2]''
   \<and> time_Since 302000000000 (time_Unix (now sampleWorld)) = 301000000000
   \<and> fst (cacheGet sampleConfig sampleCodec ''k''
            ((cacheSet sampleConfig sampleCodec ''k'' ''[1,2]'' sampleWorld)
               \<lparr>now := 302000000000\<rparr>))
       = None"
  using cache_roundtrip [of sampleConfig sampleCodec "''[1,2]''" "''[1,2]''" sampleWorld
      "''k''" 2000000000]
    cache_roundtrip [of sampleConfig sampleCodec "''[1,2]''" "''[1,2]''" sampleWorld
      "''k''" 302000000000]
  by (simp add: sampleWorld_def sampleConfig_def sampleCodec_def maxDuration_def)

text \<open>Claim C4 as stated fails for a TTL below one second: written at 1.5 s
  with a TTL of 100 ms and read back at once, with no time elapsed, the entry
  is stamped second 1, is 500 ms old, and \<open>cacheGet\<close> returns a miss and
  removes the file.\<close>

theorem cache_roundtrip_short_ttl_counterexample:
  "cacheEnabled (sampleConfig\<lparr>cacheDuration := 100000000\<rparr>)
   \<and> Marshal sampleCodec ''[1,2]'' = Some ''[1,2]''
   \<and> Unmarshal sampleCodec ''[1,2]'' = Some ''[1,2]''
   \<and> now sampleWorld - now sampleWorld \<le> cacheDuration (sampleConfig\<lparr>cacheDuration := 100000000\<rparr>)
   \<and> time_Unix (now sampleWorld) = 1
   \<and> time_Since (now sampleWorld) (time_Unix (now sampleWorld)) = 500000000
   \<and> cacheGet (sampleConfig\<lparr>cacheDuration := 100000000\<rparr>) sampleCodec ''k''
        (cacheSet (sampleConfig\<lparr>cacheDuration := 100000000\<rparr>) sampleCodec ''k'' ''[1,2]''
           sampleWorld)
       = (None, sampleWorld)"
  by (simp add: sampleWorld_def sampleConfig_def sampleCodec_def cacheGet_def cacheSet_def
      cachePath_def time_Since_def time_Unix_def time_UnixTime_def unixToInternal_def
      maxDuration_def minDuration_def)

text \<open>The other two conditions are needed as well. A payload that the
  encoder changes is read back changed: the string of the one byte \<open>0xFF\<close>
  comes back as U+FFFD. And without a successful write there is nothing to
  read back: a temporary file that cannot be created, an encoding that
  fails, or a disabled cache leave the file of the key as it was.\<close>

lemma cache_roundtrip_needs_json_roundtrip:
  "Marshal coercingCodec [CHR 0xFF] = Some [CHR 0xEF, CHR 0xBF, CHR 0xBD]
   \<and> fst (cacheGet sampleConfig coercingCodec ''k''
            (cacheSet sampleConfig coercingCodec ''k'' [CHR 0xFF] sampleWorld))
       = Some [CHR 0xEF, CHR 0xBF, CHR 0xBD]"
  by (simp add: sampleWorld_def sampleConfig_def coercingCodec_def cacheGet_def cacheSet_def
      cachePath_def time_Since_def time_Unix_def time_UnixTime_def unixToInternal_def
      maxDuration_def minDuration_def)

lemma cache_roundtrip_needs_write:
  "fst (cacheGet sampleConfig sampleCodec ''k''
          (cacheSet sampleConfig sampleCodec ''k'' ''[1,2]''
             (sampleWorld\<lparr>createFails := (\<lambda>_. True)\<rparr>))) = None
   \<and> fst (cacheGet sampleConfig sampleCodec ''k''
          (cacheSet sampleConfig sampleCodec ''k'' ''[1,2]''
             (sampleWorld\<lparr>encodeFails := (\<lambda>_. True)\<rparr>))) = None"
  by (simp add: sampleWorld_def sampleConfig_def sampleCodec_def cacheGet_def cacheSet_def
      cachePath_def)

lemma cacheSet_create_fails:
  "createFails w (cachePath cfg key @ ''.tmp'') \<Longrightarrow> cacheSet cfg codec key v w = w"
  by (simp add: cacheSet_def Let_def split: option.splits)

lemma cacheSet_encode_fails:
  "encodeFails w (cachePath cfg key @ ''.tmp'') \<Longrightarrow>
   files (cacheSet cfg codec key v w) (cachePath cfg key) = files w (cachePath cfg key)"
  by (simp add: cacheSet_def Let_def split: option.splits)

lemma cacheSet_disabled: "\<not> cacheEnabled cfg \<Longrightarrow> cacheSet cfg codec key v w = w"
  by (simp add: cacheSet_def)

section \<open>Fetching\<close>

declare getNotifications_loop.simps [simp del]

lemma strings_Contains_sublist: "strings_Contains s substr \<longleftrightarrow> sublist substr s"
  by (induction s) (auto simp: sublist_Cons_right)

lemma appendKept_filter:
  "appendKept excl incl acc ns = acc @ filter (keptBySpec excl incl) ns"
  by (induction ns arbitrary: acc) (auto simp: keptBySpec_def strings_Contains_sublist)

lemma pageRequests_step:
  "50 < n \<Longrightarrow> 50 \<le> T \<Longrightarrow> pageRequests n T = Suc (pageRequests (n - 50) (T - 50))"
proof -
  assume n: "50 < n" and T: "50 \<le> T"
  have m: "min n T = min (n - 50) (T - 50) + 50" using n T by linarith
  have d: "(x + 50 + 49) div 50 = Suc ((x + 49) div 50)" for x :: nat
    by simp
  have c: "(T < n) = (T - 50 < n - 50)" using n T by linarith
  have e: "T mod 50 = (T - 50) mod 50" using T by (simp add: le_mod_geq)
  show ?thesis unfolding pageRequests_def m d c e by simp
qed

lemma pageRequests_last:
  "1 \<le> n \<Longrightarrow> n \<le> 50 \<or> T < 50 \<Longrightarrow> pageRequests n T = 1"
proof -
  assume n: "1 \<le> n" and o: "n \<le> 50 \<or> T < 50"
  show ?thesis
  proof (cases "T < n")
    case True
    have m: "min n T = T" using True by simp
    show ?thesis
    proof (cases "T = 0")
      case True
      with \<open>T < n\<close> show ?thesis by (simp add: pageRequests_def)
    next
      case False
      then have "T < 50" using o True by linarith
      then have "(T + 49) div 50 = 1" "T mod 50 \<noteq> 0" using False by simp_all
      then show ?thesis using True by (simp add: pageRequests_def m)
    qed
  next
    case False
    then have m: "min n T = n" by simp
    have "n \<le> 50" using o False by linarith
    then have "(n + 49) div 50 = 1" using n by simp
    then show ?thesis using False by (simp add: pageRequests_def m)
  qed
qed

lemma getNotifications_body_Ok:
  assumes "fetch (pageNum st) p a s = (Ok notifs, s')" and "notifs \<noteq> []"
    and "min_go (N - fetchedCount st) ghNotifyPerPageLimit = int ps"
  shows "getNotifications_body fetch N p a excl incl st s =
           (if fetchedCount st + int (length (take ps notifs)) = N
               \<or> length (take ps notifs) < 50
            then (Inr (Inr (Ok (allNotifs st @ filter (keptBySpec excl incl) (take ps notifs)))), s')
            else (Inl \<lparr>pageNum = pageNum st + 1,
                       fetchedCount = fetchedCount st + int (length (take ps notifs)),
                       allNotifs = allNotifs st @ filter (keptBySpec excl incl) (take ps notifs)\<rparr>,
                  s'))"
proof (cases "ps < length notifs")
  case True
  then have "slice_to notifs (int ps) = Inr (take ps notifs)" by (simp add: slice_to_def)
  then show ?thesis
    using True assms unfolding getNotifications_body_def
    by (simp add: Let_def appendKept_filter ghNotifyPerPageLimit_def)
next
  case False
  then have "take ps notifs = notifs" by simp
  then show ?thesis
    using False assms unfolding getNotifications_body_def
    by (simp add: Let_def appendKept_filter ghNotifyPerPageLimit_def)
qed

text \<open>The loop against a paged feed, started at any page boundary below
  \<open>n\<close>: what it returns and which pages it requests.\<close>

lemma loop_servePages:
  assumes "pageNum st = int k + 1" and "fetchedCount st = 50 * int k" and "50 * k < n"
  shows "getNotifications_loop (servePages feed) (int n) p a excl incl st requested =
           (Inr (Ok (allNotifs st
                      @ filter (keptBySpec excl incl) (take (n - 50 * k) (drop (50 * k) feed)))),
            requested
              @ map int [Suc k ..< Suc k + pageRequests (n - 50 * k) (length feed - 50 * k)])"
  using assms
proof (induction "n - 50 * k" arbitrary: k st requested rule: less_induct)
  case less
  let ?rest = "drop (50 * k) feed"
  let ?page = "take 50 ?rest"
  let ?T = "length feed - 50 * k"
  let ?n = "n - 50 * k"
  have fetch: "servePages feed (pageNum st) p a requested = (Ok ?page, requested @ [int k + 1])"
    using less.prems by (simp add: servePages_def)
  have lenpage: "length ?page = min 50 ?T" by simp
  have n1: "1 \<le> ?n" using less.prems by simp
  show ?case
  proof (cases "50 < ?n \<and> 50 \<le> ?T")
    case True
    then have len50: "length ?page = 50" by simp
    define st' where "st' = \<lparr>pageNum = pageNum st + 1, fetchedCount = fetchedCount st + 50,
       allNotifs = allNotifs st @ filter (keptBySpec excl incl) ?page\<rparr>"
    have body: "getNotifications_body (servePages feed) (int n) p a excl incl st requested
                  = (Inl st', requested @ [int k + 1])"
      using True less.prems len50 unfolding getNotifications_body_def fetch st'_def
      by (auto simp: Let_def min_go_def ghNotifyPerPageLimit_def appendKept_filter)
    define r' where "r' = pageRequests (n - 50 * Suc k) (length feed - 50 * Suc k)"
    define tl' where "tl' = take (n - 50 * Suc k) (drop (50 * Suc k) feed)"
    have ih: "getNotifications_loop (servePages feed) (int n) p a excl incl st' (requested @ [int k + 1])
        = (Inr (Ok (allNotifs st' @ filter (keptBySpec excl incl) tl')),
           (requested @ [int k + 1]) @ map int [Suc (Suc k) ..< Suc (Suc k) + r'])"
      unfolding r'_def tl'_def
      using True less.prems by (intro less.hyps) (auto simp: st'_def)
    have tk: "take ?n ?rest = ?page @ tl'"
    proof -
      have "50 * Suc k = 50 * k + 50" by simp
      then have "?n = 50 + (n - 50 * Suc k)" using True by linarith
      then have "take ?n ?rest = take 50 ?rest @ take (n - 50 * Suc k) (drop 50 ?rest)"
        by (metis take_add)
      then show ?thesis by (simp add: add.commute tl'_def)
    qed
    have sk: "n - 50 * Suc k = ?n - 50" "length feed - 50 * Suc k = ?T - 50" by simp_all
    have pr: "pageRequests ?n ?T = Suc r'"
      unfolding r'_def sk using pageRequests_step [of ?n ?T] True by blast
    have up: "map int [Suc k ..< Suc k + Suc r'] = (int k + 1) # map int [Suc (Suc k) ..< Suc (Suc k) + r']"
      by (simp add: upt_conv_Cons)
    have acc: "allNotifs st' = allNotifs st @ filter (keptBySpec excl incl) ?page"
      by (simp add: st'_def)
    have "getNotifications_loop (servePages feed) (int n) p a excl incl st requested
            = getNotifications_loop (servePages feed) (int n) p a excl incl st' (requested @ [int k + 1])"
      by (subst getNotifications_loop.simps) (simp add: body)
    also have "\<dots> = (Inr (Ok (allNotifs st' @ filter (keptBySpec excl incl) tl')),
           (requested @ [int k + 1]) @ map int [Suc (Suc k) ..< Suc (Suc k) + r'])"
      by (rule ih)
    also have "\<dots> = (Inr (Ok (allNotifs st @ filter (keptBySpec excl incl) (take ?n ?rest))),
           requested @ map int [Suc k ..< Suc k + pageRequests ?n ?T])"
      unfolding pr up acc tk by simp
    finally show ?thesis .
  next
    case False
    then have last: "?n \<le> 50 \<or> ?T < 50" by linarith
    have pr: "pageRequests ?n ?T = 1" using pageRequests_last [OF n1 last] .
    have body: "getNotifications_body (servePages feed) (int n) p a excl incl st requested
                  = (Inr (Inr (Ok (allNotifs st @ filter (keptBySpec excl incl) (take ?n ?rest)))),
                     requested @ [int k + 1])"
    proof (cases "?T = 0")
      case True
      then show ?thesis unfolding getNotifications_body_def fetch by simp
    next
      case T0: False
      then have ne: "?page \<noteq> []" by simp
      have nk: "int n - fetchedCount st = int ?n" using less.prems by linarith
      have ps: "min_go (int n - fetchedCount st) ghNotifyPerPageLimit = int (min ?n 50)"
        unfolding nk min_go_def ghNotifyPerPageLimit_def by (simp add: min_def)
      have tt: "take (min ?n 50) ?page = take ?n ?rest"
        using last by (auto simp: min_def)
      have stop: "fetchedCount st + int (length (take ?n ?rest)) = int n
                   \<or> length (take ?n ?rest) < 50"
      proof (cases "?T < 50")
        case True
        then have "length (take ?n ?rest) < 50" by simp
        then show ?thesis by blast
      next
        case False
        then have "?n \<le> 50" using last by simp
        then have "length (take ?n ?rest) = ?n" using False by simp
        then show ?thesis using nk by linarith
      qed
      show ?thesis
        using stop unfolding getNotifications_body_Ok [where fetch = "servePages feed", OF fetch ne ps] tt by auto
    qed
    show ?thesis
      by (subst getNotifications_loop.simps) (simp add: body pr)
  qed
qed


lemma loop_zero:
  "fst (getNotifications_loop (servePages feed) 0 p a excl incl
          \<lparr>pageNum = 1, fetchedCount = 0, allNotifs = []\<rparr> requested) = Inr (Ok [])"
proof (cases "take 50 feed = []")
  case True
  then show ?thesis
    by (subst getNotifications_loop.simps)
       (simp add: getNotifications_body_def servePages_def)
next
  case False
  have fetch: "servePages feed (pageNum \<lparr>pageNum = 1, fetchedCount = 0, allNotifs = []\<rparr>) p a requested
      = (Ok (take 50 feed), requested @ [1])"
    by (simp add: servePages_def)
  have ps: "min_go (0 - fetchedCount \<lparr>pageNum = 1, fetchedCount = 0, allNotifs = []\<rparr>)
      ghNotifyPerPageLimit = int 0"
    by (simp add: min_go_def ghNotifyPerPageLimit_def)
  show ?thesis
    by (subst getNotifications_loop.simps)
       (simp add: getNotifications_body_Ok [where fetch = "servePages feed", OF fetch False ps])
qed

lemma getNotifications_servePages:
  assumes "1 \<le> N"
  shows "getNotifications (servePages feed) N p a excl incl requested =
           (Inr (Ok (filter (keptBySpec excl incl) (take (nat N) feed))),
            requested @ map int [1 ..< 1 + pageRequests (nat N) (length feed)])"
proof -
  define n where "n = nat N"
  have n: "N = int n" "0 < n" using assms by (simp_all add: n_def)
  show ?thesis
    unfolding getNotifications_def n
    using loop_servePages [of "\<lparr>pageNum = 1, fetchedCount = 0, allNotifs = []\<rparr>" 0 n feed p a excl incl requested] n
    by simp
qed

text \<open>With \<open>fetchedCount \<le> numNotifications\<close> a round does not panic, and a
  round that continues keeps the invariant (\<open>getNotifications_body_continue\<close>).\<close>

lemma getNotifications_body_no_panic:
  assumes "fetchedCount st \<le> N"
  shows "fst (getNotifications_body fetch N p a excl incl st s) \<noteq> Inr (Inl pn)"
  using assms unfolding getNotifications_body_def
  by (auto simp: Let_def min_go_def ghNotifyPerPageLimit_def slice_to_def
      split: prod.splits result.splits sum.splits)

lemma getNotifications_loop_no_panic:
  "fetchedCount st \<le> N \<Longrightarrow> fst (getNotifications_loop fetch N p a excl incl st s) \<noteq> Inl pn"
proof (induction fetch N p a excl incl st s rule: getNotifications_loop.induct)
  case (1 fetch N p a excl incl st s)
  obtain x s' where body: "getNotifications_body fetch N p a excl incl st s = (x, s')"
    by (cases "getNotifications_body fetch N p a excl incl st s")
  show ?case
  proof (cases x)
    case (Inl st')
    have "fetchedCount st' \<le> N"
      using getNotifications_body_continue [of fetch N p a excl incl st s st' s'] body Inl
      by simp
    then have "fst (getNotifications_loop fetch N p a excl incl st' s') \<noteq> Inl pn"
      using "1.IH" [OF body [symmetric] Inl] by simp
    then show ?thesis
      by (subst getNotifications_loop.simps) (simp add: body Inl)
  next
    case (Inr r)
    have "r \<noteq> Inl pn"
      using getNotifications_body_no_panic [OF "1.prems", of fetch p a excl incl s pn] body Inr
      by auto
    then show ?thesis
      by (subst getNotifications_loop.simps) (simp add: body Inr)
  qed
qed

lemma getNotifications_negative_panics:
  assumes "N < 0" and "fst (fetch 1 p a s) = Ok ns" and "ns \<noteq> []"
  shows "fst (getNotifications fetch N p a excl incl s) = Inl SliceBoundsOutOfRange"
proof -
  obtain s' where f: "fetch 1 p a s = (Ok ns, s')" using assms(2) by (cases "fetch 1 p a s") simp
  have "getNotifications_body fetch N p a excl incl \<lparr>pageNum = 1, fetchedCount = 0, allNotifs = []\<rparr> s
          = (Inr (Inl SliceBoundsOutOfRange), s')"
    using assms(1,3) unfolding getNotifications_body_def
    by (simp add: f Let_def min_go_def ghNotifyPerPageLimit_def slice_to_def)
  then show ?thesis
    unfolding getNotifications_def by (subst getNotifications_loop.simps) simp
qed

text \<open>
  Claim C3, as amended. For every \<open>N \<ge> 0\<close>, \<open>getNotifications\<close> returns the
  fetched records (the first \<open>N\<close> of the feed) that the filter keeps, in their
  order: a record is dropped iff the exclude pattern is not empty and occurs in
  its title, and of the rest a record is kept iff the include pattern is empty
  or occurs in its title. Occurrence is byte for byte, so case matters: of the
  titles \<open>Fix bug\<close>, \<open>Add feature\<close>, \<open>Bugfix release\<close> the exclude pattern
  \<open>Bug\<close> drops only \<open>Bugfix release\<close>.
\<close>

theorem getNotifications_filtering:
  assumes "0 \<le> N"
  shows "fst (getNotifications (servePages feed) N p a excl incl requested)
           = Inr (Ok (filter (keptBySpec excl incl) (take (nat N) feed)))
       \<and> fst (getNotifications
                 (servePages
                    (map sampleNotification [''Fix bug'', ''Add feature'', ''Bugfix release'']))
                 50 p a ''Bug'' [] requested)
           = Inr (Ok (map sampleNotification [''Fix bug'', ''Add feature'']))"
proof
  show "fst (getNotifications (servePages feed) N p a excl incl requested)
           = Inr (Ok (filter (keptBySpec excl incl) (take (nat N) feed)))"
  proof (cases "N = 0")
    case True
    then show ?thesis by (simp add: getNotifications_def loop_zero)
  next
    case False
    then have "1 \<le> N" using assms by simp
    then show ?thesis by (simp add: getNotifications_servePages)
  qed
  show "fst (getNotifications
                 (servePages
                    (map sampleNotification [''Fix bug'', ''Add feature'', ''Bugfix release'']))
                 50 p a ''Bug'' [] requested)
           = Inr (Ok (map sampleNotification [''Fix bug'', ''Add feature'']))"
    by (simp add: getNotifications_servePages keptBySpec_def sampleNotification_def
        strings_Contains_sublist [symmetric])
qed

theorem getNotifications_filtering_witness:
  "(0::int) \<le> 2
   \<and> fst (getNotifications
            (servePages
               (map sampleNotification [''Fix bug'', ''Add feature'', ''Bugfix release'']))
            2 False False ''Fix'' ''e'' [])
       = Inr (Ok [sampleNotification ''Add feature''])"
  using getNotifications_filtering [of 2
      "map sampleNotification [''Fix bug'', ''Add feature'', ''Bugfix release'']"
      False False "''Fix''" "''e''" "[]"]
  by (simp add: keptBySpec_def sampleNotification_def strings_Contains_sublist [symmetric])

text \<open>Claim C3 as stated fails at its own example: with the exclude pattern
  \<open>Bug\<close>, \<open>Fix bug\<close> is kept as well as \<open>Add feature\<close>.\<close>

theorem getNotifications_filtering_example_counterexample:
  "fst (getNotifications
          (servePages
             (map sampleNotification [''Fix bug'', ''Add feature'', ''Bugfix release'']))
          50 False False ''Bug'' [] [])
     = Inr (Ok [sampleNotification ''Fix bug'', sampleNotification ''Add feature''])
   \<and> [sampleNotification ''Fix bug'', sampleNotification ''Add feature'']
       \<noteq> [sampleNotification ''Add feature'']"
  by (simp add: getNotifications_def getNotifications_loop.simps getNotifications_body_def
      servePages_def min_go_def ghNotifyPerPageLimit_def sampleNotification_def)

text \<open>
  Claim C10. For every page source: with \<open>fetchedCount \<le> numNotifications\<close> the
  truncation index \<open>pageSize\<close> is not negative, the round does not panic, and a
  round that continues keeps \<open>fetchedCount \<le> numNotifications\<close>; so for
  \<open>numNotifications \<ge> 0\<close>, where the loop starts with \<open>fetchedCount = 0\<close>,
  \<open>getNotifications\<close> never panics. The precondition is needed: for a negative
  \<open>numNotifications\<close> and a first page that is not empty, the slice
  \<open>notifs[:pageSize]\<close> panics.
\<close>

theorem getNotifications_truncation_in_bounds:
  "(0 \<le> N \<longrightarrow> fst (getNotifications fetch N p a excl incl s) \<noteq> Inl pn)
   \<and> (fetchedCount st \<le> N \<longrightarrow>
        0 \<le> min_go (N - fetchedCount st) ghNotifyPerPageLimit
        \<and> fst (getNotifications_body fetch N p a excl incl st s) \<noteq> Inr (Inl pn)
        \<and> (\<forall>st'. fst (getNotifications_body fetch N p a excl incl st s) = Inl st'
              \<longrightarrow> fetchedCount st' \<le> N))
   \<and> (N < 0 \<and> fst (fetch 1 p a s) = Ok ns \<and> ns \<noteq> [] \<longrightarrow>
        fst (getNotifications fetch N p a excl incl s) = Inl SliceBoundsOutOfRange)"
proof (intro conjI impI allI)
  assume "0 \<le> N"
  then show "fst (getNotifications fetch N p a excl incl s) \<noteq> Inl pn"
    unfolding getNotifications_def by (intro getNotifications_loop_no_panic) simp
next
  assume "fetchedCount st \<le> N"
  then show "0 \<le> min_go (N - fetchedCount st) ghNotifyPerPageLimit"
    by (simp add: min_go_def ghNotifyPerPageLimit_def)
next
  assume "fetchedCount st \<le> N"
  then show "fst (getNotifications_body fetch N p a excl incl st s) \<noteq> Inr (Inl pn)"
    by (rule getNotifications_body_no_panic)
next
  fix st'
  assume "fetchedCount st \<le> N"
    and "fst (getNotifications_body fetch N p a excl incl st s) = Inl st'"
  then show "fetchedCount st' \<le> N"
    using getNotifications_body_continue [of fetch N p a excl incl st s st'
        "snd (getNotifications_body fetch N p a excl incl st s)"]
    by (cases "getNotifications_body fetch N p a excl incl st s") simp
next
  assume "N < 0 \<and> fst (fetch 1 p a s) = Ok ns \<and> ns \<noteq> []"
  then show "fst (getNotifications fetch N p a excl incl s) = Inl SliceBoundsOutOfRange"
    by (simp add: getNotifications_negative_panics)
qed

theorem getNotifications_truncation_in_bounds_witness:
  "(0::int) \<le> 2
   \<and> fst (getNotifications (servePages (replicate 3 (sampleNotification ''Fix bug''))) 2
            False False [] [] [])
       \<noteq> Inl SliceBoundsOutOfRange
   \<and> (-1::int) < 0
   \<and> fst (servePages (replicate 3 (sampleNotification ''Fix bug'')) 1 False False [])
       = Ok (replicate 3 (sampleNotification ''Fix bug''))
   \<and> fst (getNotifications (servePages (replicate 3 (sampleNotification ''Fix bug''))) (-1)
            False False [] [] [])
       = Inl SliceBoundsOutOfRange"
  using getNotifications_truncation_in_bounds [of 2
      "servePages (replicate 3 (sampleNotification ''Fix bug''))" False False "[]" "[]" "[]"
      SliceBoundsOutOfRange "\<lparr>pageNum = 1, fetchedCount = 0, allNotifs = []\<rparr>"]
    getNotifications_truncation_in_bounds [of "-1"
      "servePages (replicate 3 (sampleNotification ''Fix bug''))" False False "[]" "[]" "[]"
      SliceBoundsOutOfRange "\<lparr>pageNum = 1, fetchedCount = 0, allNotifs = []\<rparr>"
      "replicate 3 (sampleNotification ''Fix bug'')"]
  by (simp add: servePages_def)

subsection \<open>Pagination\<close>

text \<open>The decimal text of a number determines the number, so the endpoints
  and the cache keys of two pages differ, and so do their cache files; no
  cache file is the temporary file of another.\<close>

declare natDigits.simps [simp del]

lemma natDigits_small: "n < 10 \<Longrightarrow> natDigits n = [''0123456789'' ! n]"
  by (subst natDigits.simps) (simp del: natDigits.simps)

lemma natDigits_large:
  "\<not> n < 10 \<Longrightarrow> natDigits n = natDigits (n div 10) @ [''0123456789'' ! (n mod 10)]"
  by (subst natDigits.simps) (simp del: natDigits.simps)

lemma natDigits_not_Nil: "natDigits n \<noteq> []"
  by (cases "n < 10") (simp_all add: natDigits_small natDigits_large)

lemma digit_inj:
  assumes "a < 10" and "b < 10" and "''0123456789'' ! a = ''0123456789'' ! b"
  shows "a = b"
proof -
  have d: "distinct ''0123456789''" by simp
  have l: "a < length ''0123456789''" "b < length ''0123456789''" using assms by simp_all
  show ?thesis using nth_eq_iff_index_eq [OF d l] assms(3) by blast
qed

lemma natDigits_length_large: "\<not> n < 10 \<Longrightarrow> 2 \<le> length (natDigits n)"
proof -
  assume a: "\<not> n < 10"
  have "natDigits (n div 10) \<noteq> []" by (rule natDigits_not_Nil)
  then have "1 \<le> length (natDigits (n div 10))" by (cases "natDigits (n div 10)") simp_all
  moreover have "length (natDigits n) = length (natDigits (n div 10)) + 1"
    by (simp only: natDigits_large [OF a] length_append) simp
  ultimately show ?thesis by linarith
qed

lemma natDigits_length_small: "n < 10 \<Longrightarrow> length (natDigits n) = 1"
  by (simp only: natDigits_small) simp

lemma natDigits_inj: "natDigits n = natDigits m \<Longrightarrow> n = m"
proof (induction n arbitrary: m rule: natDigits.induct)
  case (1 n)
  have len: "length (natDigits n) = length (natDigits m)" by (simp only: "1.prems")
  show ?case
  proof (cases "n < 10")
    case True
    have m: "m < 10"
    proof (rule ccontr)
      assume "\<not> m < 10"
      then have "2 \<le> length (natDigits m)" by (rule natDigits_length_large)
      moreover have "length (natDigits n) = 1" using True by (rule natDigits_length_small)
      ultimately show False using len by linarith
    qed
    have "[''0123456789'' ! n] = [''0123456789'' ! m]"
      using "1.prems" by (simp only: natDigits_small [OF True] natDigits_small [OF m])
    then have "''0123456789'' ! n = ''0123456789'' ! m" by (simp only: list.inject)
    then show ?thesis by (rule digit_inj [OF True m])
  next
    case False
    have m: "\<not> m < 10"
    proof
      assume "m < 10"
      then have "length (natDigits m) = 1" by (rule natDigits_length_small)
      moreover have "2 \<le> length (natDigits n)" using False by (rule natDigits_length_large)
      ultimately show False using len by linarith
    qed
    have "natDigits (n div 10) @ [''0123456789'' ! (n mod 10)]
        = natDigits (m div 10) @ [''0123456789'' ! (m mod 10)]"
      using "1.prems" by (simp only: natDigits_large [OF False] natDigits_large [OF m])
    then have e: "natDigits (n div 10) = natDigits (m div 10)"
      and d: "''0123456789'' ! (n mod 10) = ''0123456789'' ! (m mod 10)"
      by (simp_all only: append1_eq_conv)
    have q: "n div 10 = m div 10" using e by (rule "1.IH" [OF False])
    have "n mod 10 < 10" "m mod 10 < 10" by simp_all
    then have r: "n mod 10 = m mod 10" using d by (rule digit_inj)
    have "n = n div 10 * 10 + n mod 10" by (simp only: div_mult_mod_eq)
    also have "\<dots> = m div 10 * 10 + m mod 10" by (simp only: q r)
    also have "\<dots> = m" by (simp only: div_mult_mod_eq)
    finally show ?thesis .
  qed
qed

lemma itoa_inj: "0 \<le> j \<Longrightarrow> 0 \<le> k \<Longrightarrow> itoa j = itoa k \<Longrightarrow> j = k"
proof -
  assume j: "0 \<le> j" and k: "0 \<le> k" and e: "itoa j = itoa k"
  then have "natDigits (nat j) = natDigits (nat k)" by (simp add: itoa_def del: natDigits.simps)
  then have "nat j = nat k" by (rule natDigits_inj)
  then show "j = k" using j k by linarith
qed

lemma cacheKeyOf_inj:
  assumes "0 \<le> j" and "0 \<le> k" and "cacheKeyOf j p a = cacheKeyOf k p a"
  shows "j = k"
proof -
  have "itoa j = itoa k" using assms(3) by (simp add: cacheKeyOf_def)
  then show ?thesis using assms(1,2) by (intro itoa_inj)
qed

lemma endpointOf_inj:
  assumes "0 \<le> j" and "0 \<le> k" and "endpointOf j p a = endpointOf k p a"
  shows "j = k"
proof -
  have "itoa j = itoa k" using assms(3) by (simp add: endpointOf_def)
  then show ?thesis using assms(1,2) by (intro itoa_inj)
qed

lemma cachePath_inj: "cachePath cfg k1 = cachePath cfg k2 \<Longrightarrow> k1 = k2"
  by (simp add: cachePath_def)

lemma cachePath_not_tmp: "cachePath cfg k1 \<noteq> cachePath cfg k2 @ ''.tmp''"
proof
  assume "cachePath cfg k1 = cachePath cfg k2 @ ''.tmp''"
  then have "last (cachePath cfg k1) = last (cachePath cfg k2 @ ''.tmp'')" by simp
  then show False by (simp add: cachePath_def)
qed

text \<open>What \<open>cacheGet\<close>, \<open>cacheSet\<close> and \<open>getNotifs\<close> leave unchanged: the
  clock, the client, the remote API, and every file but the cache file of the
  key and its temporary file. Whether \<open>cacheGet\<close> hits depends on that file and
  the clock only. A call of \<open>getNotifs\<close> that misses the cache sends one request
  and returns the answer.\<close>

lemma cacheGet_frame:
  "netlog (snd (cacheGet cfg codec key w)) = netlog w
   \<and> now (snd (cacheGet cfg codec key w)) = now w
   \<and> clientError (snd (cacheGet cfg codec key w)) = clientError w
   \<and> apiGet (snd (cacheGet cfg codec key w)) = apiGet w
   \<and> (q \<noteq> cachePath cfg key \<longrightarrow> files (snd (cacheGet cfg codec key w)) q = files w q)"
  by (simp add: cacheGet_def Let_def split: option.splits fileContent.splits)

lemma cacheSet_frame:
  "netlog (cacheSet cfg codec key v w) = netlog w
   \<and> now (cacheSet cfg codec key v w) = now w
   \<and> clientError (cacheSet cfg codec key v w) = clientError w
   \<and> apiGet (cacheSet cfg codec key v w) = apiGet w
   \<and> (q \<noteq> cachePath cfg key \<and> q \<noteq> cachePath cfg key @ ''.tmp''
        \<longrightarrow> files (cacheSet cfg codec key v w) q = files w q)"
  by (simp add: cacheSet_def Let_def split: option.splits)

lemma cacheGet_fst_cong:
  assumes "files w1 (cachePath cfg key) = files w2 (cachePath cfg key)" and "now w1 = now w2"
  shows "fst (cacheGet cfg codec key w1) = fst (cacheGet cfg codec key w2)"
  using assms by (simp add: cacheGet_def Let_def split: option.splits fileContent.splits)

lemma getNotifs_miss:
  assumes miss: "fst (cacheGet cfg codec (cacheKeyOf k p a) w) = None"
    and client: "clientError w = None"
    and api: "apiGet w (endpointOf k p a) = Inr ns"
  shows "fst (getNotifs cfg codec k p a w) = Ok ns
       \<and> netlog (snd (getNotifs cfg codec k p a w)) = netlog w @ [GET (endpointOf k p a)]
       \<and> now (snd (getNotifs cfg codec k p a w)) = now w
       \<and> clientError (snd (getNotifs cfg codec k p a w)) = clientError w
       \<and> apiGet (snd (getNotifs cfg codec k p a w)) = apiGet w
       \<and> (q \<noteq> cachePath cfg (cacheKeyOf k p a)
            \<and> q \<noteq> cachePath cfg (cacheKeyOf k p a) @ ''.tmp''
            \<longrightarrow> files (snd (getNotifs cfg codec k p a w)) q = files w q)"
proof -
  obtain w1 where cg: "cacheGet cfg codec (cacheKeyOf k p a) w = (None, w1)"
    using miss by (cases "cacheGet cfg codec (cacheKeyOf k p a) w") simp
  have w1: "netlog w1 = netlog w" "now w1 = now w" "clientError w1 = clientError w"
    "apiGet w1 = apiGet w"
    "q \<noteq> cachePath cfg (cacheKeyOf k p a) \<longrightarrow> files w1 q = files w q"
    using cacheGet_frame [of cfg codec "cacheKeyOf k p a" w q] by (simp_all add: cg)
  define w3 where "w3 = w1\<lparr>netlog := netlog w1 @ [GET (endpointOf k p a)]\<rparr>"
  have g: "getNotifs cfg codec k p a w = (Ok ns, cacheSet cfg codec (cacheKeyOf k p a) ns w3)"
    using client api w1(3,4)
    by (simp add: getNotifs_def cg ghRestApiClient_def Let_def w3_def)
  have w3: "netlog w3 = netlog w @ [GET (endpointOf k p a)]" "now w3 = now w"
    "clientError w3 = clientError w" "apiGet w3 = apiGet w" "files w3 = files w1"
    using w1 by (simp_all add: w3_def)
  show ?thesis
    using cacheSet_frame [of cfg codec "cacheKeyOf k p a" ns w3 q] w3 w1(5)
    by (simp add: g)
qed

text \<open>Two page sources that answer alike on every page, from states related
  at that page number, give the loop the same result and leave related
  states.\<close>

lemma getNotifications_body_state:
  "snd (getNotifications_body f N p a excl incl st s) = snd (f (pageNum st) p a s)"
proof (cases "f (pageNum st) p a s")
  case (Pair r s')
  then show ?thesis
    unfolding getNotifications_body_def
    by (cases r) (simp_all add: Let_def split: sum.splits)
qed

lemma getNotifications_body_fetch:
  assumes "fst (f (pageNum st) p a s) = fst (g (pageNum st) p a t)"
  shows "fst (getNotifications_body f N p a excl incl st s)
           = fst (getNotifications_body g N p a excl incl st t)"
proof -
  obtain r s' where f: "f (pageNum st) p a s = (r, s')" by (cases "f (pageNum st) p a s")
  then obtain t' where g: "g (pageNum st) p a t = (r, t')"
    using assms by (cases "g (pageNum st) p a t") simp
  show ?thesis
    unfolding getNotifications_body_def f g
    by (cases r) (simp_all add: Let_def split: sum.splits)
qed

lemma getNotifications_loop_sim:
  assumes "\<And>k s t. R k s t \<Longrightarrow>
             fst (f k p a s) = fst (g k p a t) \<and> R (k + 1) (snd (f k p a s)) (snd (g k p a t))"
    and "R (pageNum st) s t"
  shows "fst (getNotifications_loop f N p a excl incl st s)
           = fst (getNotifications_loop g N p a excl incl st t)
         \<and> (\<exists>k. R k (snd (getNotifications_loop f N p a excl incl st s))
                   (snd (getNotifications_loop g N p a excl incl st t)))"
  using assms
proof (induction g N p a excl incl st t arbitrary: s rule: getNotifications_loop.induct)
  case (1 g N p a excl incl st t)
  obtain x t' where bg: "getNotifications_body g N p a excl incl st t = (x, t')"
    by (cases "getNotifications_body g N p a excl incl st t")
  obtain y s' where bf: "getNotifications_body f N p a excl incl st s = (y, s')"
    by (cases "getNotifications_body f N p a excl incl st s")
  have fg: "fst (f (pageNum st) p a s) = fst (g (pageNum st) p a t)"
    and R': "R (pageNum st + 1) (snd (f (pageNum st) p a s)) (snd (g (pageNum st) p a t))"
    using "1.prems" by blast+
  have xy: "y = x"
    using getNotifications_body_fetch
      [where f = f and g = g and s = s and t = t and st = st and p = p and a = a, OF fg,
       of N excl incl] bf bg
    by simp
  have s': "s' = snd (f (pageNum st) p a s)"
    using getNotifications_body_state [of f N p a excl incl st s] bf by simp
  have t': "t' = snd (g (pageNum st) p a t)"
    using getNotifications_body_state [of g N p a excl incl st t] bg by simp
  note eqf = getNotifications_loop.simps [of f N p a excl incl st s]
  note eqg = getNotifications_loop.simps [of g N p a excl incl st t]
  have R'': "R (pageNum st + 1) s' t'" using R' s' t' by simp
  show ?case
  proof (cases x)
    case (Inl st')
    have "pageNum st' = pageNum st + 1"
      using getNotifications_body_continue [of g N p a excl incl st t st' t'] bg Inl
      by simp
    then have R3: "R (pageNum st') s' t'" using R'' by simp
    have "fst (getNotifications_loop f N p a excl incl st' s')
           = fst (getNotifications_loop g N p a excl incl st' t')
         \<and> (\<exists>k. R k (snd (getNotifications_loop f N p a excl incl st' s'))
              (snd (getNotifications_loop g N p a excl incl st' t')))"
      using "1.IH" [OF bg [symmetric] Inl "1.prems"(1) R3] by blast
    then show ?thesis
      unfolding eqf eqg by (simp add: bf bg xy Inl)
  next
    case (Inr r)
    have "\<exists>k. R k s' t'" using R'' by blast
    then show ?thesis
      unfolding eqf eqg by (simp add: bf bg xy Inr)
  qed
qed

text \<open>Hence the loop over \<open>getNotifs\<close>, when no page is answered from the
  cache and the remote API serves the feed in pages of 50, behaves as the loop
  over \<open>servePages\<close>: the requests are the \<open>GET\<close>s of the network log.\<close>

lemma getNotifications_paged:
  assumes N: "1 \<le> N" and client: "clientError w = None"
    and api: "\<And>k. 1 \<le> k \<Longrightarrow>
                apiGet w (endpointOf k p a) = Inr (take 50 (drop (50 * nat (k - 1)) feed))"
    and miss: "\<And>k. 1 \<le> k \<Longrightarrow> fst (cacheGet cfg codec (cacheKeyOf k p a) w) = None"
  shows "fst (getNotifications (getNotifs cfg codec) N p a excl incl w)
           = Inr (Ok (filter (keptBySpec excl incl) (take (nat N) feed)))
       \<and> netlog (snd (getNotifications (getNotifs cfg codec) N p a excl incl w))
           = netlog w @ map (\<lambda>k. GET (endpointOf (int k) p a))
                          [1 ..< 1 + pageRequests (nat N) (length feed)]"
proof -
  define R where "R k w' requested \<longleftrightarrow>
      1 \<le> k
      \<and> netlog w' = netlog w @ map (\<lambda>j. GET (endpointOf j p a)) requested
      \<and> now w' = now w \<and> clientError w' = None \<and> apiGet w' = apiGet w
      \<and> (\<forall>j\<ge>k. files w' (cachePath cfg (cacheKeyOf j p a))
                  = files w (cachePath cfg (cacheKeyOf j p a)))"
    for k :: int and w' :: World and requested :: "int list"
  have step: "fst (getNotifs cfg codec k p a w') = fst (servePages feed k p a requested)
        \<and> R (k + 1) (snd (getNotifs cfg codec k p a w')) (snd (servePages feed k p a requested))"
    if r: "R k w' requested" for k w' requested
  proof -
    have k: "1 \<le> k" and nl: "netlog w' = netlog w @ map (\<lambda>j. GET (endpointOf j p a)) requested"
      and nw: "now w' = now w" and ce: "clientError w' = None" and ag: "apiGet w' = apiGet w"
      and fl: "\<And>j. k \<le> j \<Longrightarrow> files w' (cachePath cfg (cacheKeyOf j p a))
                  = files w (cachePath cfg (cacheKeyOf j p a))"
      using r by (simp_all add: R_def)
    have m: "fst (cacheGet cfg codec (cacheKeyOf k p a) w') = None"
      using cacheGet_fst_cong [of w' cfg "cacheKeyOf k p a" w codec] fl [of k] nw miss [OF k]
      by simp
    have ap: "apiGet w' (endpointOf k p a) = Inr (take 50 (drop (50 * nat (k - 1)) feed))"
      using api [OF k] ag by simp
    note gm = getNotifs_miss [OF m ce ap]
    have files': "files (snd (getNotifs cfg codec k p a w')) (cachePath cfg (cacheKeyOf j p a))
                  = files w (cachePath cfg (cacheKeyOf j p a))" if j: "k + 1 \<le> j" for j
    proof -
      have "cacheKeyOf j p a \<noteq> cacheKeyOf k p a"
        using cacheKeyOf_inj [of j k p a] j k by auto
      then have "cachePath cfg (cacheKeyOf j p a) \<noteq> cachePath cfg (cacheKeyOf k p a)"
        using cachePath_inj by blast
      moreover have "cachePath cfg (cacheKeyOf j p a) \<noteq> cachePath cfg (cacheKeyOf k p a) @ ''.tmp''"
        by (rule cachePath_not_tmp)
      ultimately have "files (snd (getNotifs cfg codec k p a w')) (cachePath cfg (cacheKeyOf j p a))
           = files w' (cachePath cfg (cacheKeyOf j p a))"
        using gm [of "cachePath cfg (cacheKeyOf j p a)"] by blast
      then show ?thesis using fl [of j] j by simp
    qed
    have "fst (getNotifs cfg codec k p a w') = fst (servePages feed k p a requested)"
      using gm [of "[]"] by (simp add: servePages_def)
    moreover have "R (k + 1) (snd (getNotifs cfg codec k p a w'))
                     (snd (servePages feed k p a requested))"
      unfolding R_def using gm [of "[]"] k nl nw ce ag files'
      by (simp add: servePages_def)
    ultimately show ?thesis by blast
  qed
  let ?st = "\<lparr>pageNum = 1, fetchedCount = 0, allNotifs = []\<rparr>"
  have start: "R (pageNum ?st) w []" using client by (simp add: R_def)
  have sim: "fst (getNotifications_loop (getNotifs cfg codec) N p a excl incl ?st w)
           = fst (getNotifications_loop (servePages feed) N p a excl incl ?st [])
         \<and> (\<exists>k. R k (snd (getNotifications_loop (getNotifs cfg codec) N p a excl incl ?st w))
              (snd (getNotifications_loop (servePages feed) N p a excl incl ?st [])))"
    by (rule getNotifications_loop_sim [where R = R and f = "getNotifs cfg codec"
          and g = "servePages feed", OF step start])
  have mock: "getNotifications_loop (servePages feed) N p a excl incl ?st [] =
      (Inr (Ok (filter (keptBySpec excl incl) (take (nat N) feed))),
       map int [1 ..< 1 + pageRequests (nat N) (length feed)])"
    using getNotifications_servePages [OF N, of feed p a excl incl "[]"]
    by (simp add: getNotifications_def)
  show ?thesis
    using sim unfolding mock getNotifications_def R_def
    by (auto simp: comp_def)
qed

lemma pagedApiUpTo_serves:
  assumes "1 \<le> k"
  shows "pagedApiUpTo feed p a n (endpointOf k p a)
           = (if k \<le> int n then Inr (take 50 (drop (50 * nat (k - 1)) feed)) else Inr [])"
proof (induction n)
  case 0
  then show ?case using assms by simp
next
  case (Suc n)
  show ?case
  proof (cases "k = int (Suc n)")
    case True
    then show ?thesis by simp
  next
    case False
    then have "endpointOf k p a \<noteq> endpointOf (int (Suc n)) p a"
      using endpointOf_inj [of k "int (Suc n)" p a] assms by auto
    then show ?thesis using Suc False by auto
  qed
qed

lemma pagedApi_serves:
  assumes "1 \<le> k"
  shows "pagedApi feed p a (endpointOf k p a) = Inr (take 50 (drop (50 * nat (k - 1)) feed))"
proof (cases "k \<le> int (length feed div 50 + 1)")
  case True
  then show ?thesis unfolding pagedApi_def pagedApiUpTo_serves [OF assms] by simp
next
  case False
  then have "length feed div 50 + 1 \<le> nat (k - 1)" by linarith
  then have "50 * (length feed div 50 + 1) \<le> 50 * nat (k - 1)" by simp
  moreover have "length feed < 50 * (length feed div 50 + 1)"
  proof -
    have "length feed < 50 + 50 * (length feed div 50)"
      by (rule dividend_less_times_div) simp
    then show ?thesis by simp
  qed
  ultimately have "length feed \<le> 50 * nat (k - 1)" by linarith
  then have "drop (50 * nat (k - 1)) feed = []" by simp
  then show ?thesis using False unfolding pagedApi_def pagedApiUpTo_serves [OF assms] by simp
qed

text \<open>
  Claim C2, as amended. Let \<open>N \<ge> 1\<close>, let the REST client be available, let
  the remote API serve the feed in pages of 50 (page \<open>k\<close> holds the records
  \<open>50 (k - 1), \<dots>, 50 k - 1\<close>, the last page what is left, every later page
  nothing), and let no page be answered from the cache (for each page
  \<open>cacheGet\<close> misses: the cache is disabled, or the file of the page is absent,
  undecodable or expired). Then \<open>getNotifications\<close> over \<open>getNotifs\<close>, with
  empty patterns, returns the first \<open>min N (length feed)\<close> records of the feed
  in their order, so never more than \<open>N\<close>, and sends the requests for the pages
  \<open>1, 2, \<dots>, r\<close> in turn and no other, where \<open>r\<close> is
  \<open>\<lceil>min N (length feed) / 50\<rceil>\<close> or one more (the probe answered by an empty
  page when the feed ends on a page boundary before \<open>N\<close> is reached).
\<close>

theorem getNotifications_pagination:
  assumes "1 \<le> N" and "clientError w = None"
    and "\<forall>k\<ge>1. apiGet w (endpointOf k p a) = Inr (take 50 (drop (50 * nat (k - 1)) feed))"
    and "\<forall>k\<ge>1. fst (cacheGet cfg codec (cacheKeyOf k p a) w) = None"
  shows "fst (getNotifications (getNotifs cfg codec) N p a [] [] w)
           = Inr (Ok (take (nat N) feed))
       \<and> length (take (nat N) feed) = min (nat N) (length feed)
       \<and> netlog (snd (getNotifications (getNotifs cfg codec) N p a [] [] w))
           = netlog w @ map (\<lambda>k. GET (endpointOf (int k) p a))
                          [1 ..< 1 + pageRequests (nat N) (length feed)]
       \<and> (pageRequests (nat N) (length feed) = (min (nat N) (length feed) + 49) div 50
          \<or> pageRequests (nat N) (length feed)
               = (min (nat N) (length feed) + 49) div 50 + 1)"
proof -
  have api: "\<And>k. 1 \<le> k \<Longrightarrow>
      apiGet w (endpointOf k p a) = Inr (take 50 (drop (50 * nat (k - 1)) feed))"
    using assms(3) by blast
  have miss: "\<And>k. 1 \<le> k \<Longrightarrow> fst (cacheGet cfg codec (cacheKeyOf k p a) w) = None"
    using assms(4) by blast
  have k: "filter (keptBySpec [] []) xs = xs" for xs
    by (simp add: keptBySpec_def)
  note paged = getNotifications_paged [where excl = "[]" and incl = "[]", OF assms(1,2) api miss]
  have res: "fst (getNotifications (getNotifs cfg codec) N p a [] [] w)
           = Inr (Ok (take (nat N) feed))"
    using paged by (simp add: k)
  have len: "length (take (nat N) feed) = min (nat N) (length feed)"
    by (simp add: min.commute)
  have log: "netlog (snd (getNotifications (getNotifs cfg codec) N p a [] [] w))
           = netlog w @ map (\<lambda>k. GET (endpointOf (int k) p a))
                          [1 ..< 1 + pageRequests (nat N) (length feed)]"
    using paged by blast
  have cnt: "pageRequests (nat N) (length feed) = (min (nat N) (length feed) + 49) div 50
          \<or> pageRequests (nat N) (length feed)
               = (min (nat N) (length feed) + 49) div 50 + 1"
    by (simp add: pageRequests_def)
  show ?thesis using res len log cnt by blast
qed

theorem getNotifications_pagination_witness:
  "fst (getNotifications (getNotifs sampleConfig emptyListCodec) 70 False False [] []
          (pagedWorld (replicate 120 (sampleNotification ''Fix bug''))))
     = Inr (Ok (replicate 70 (sampleNotification ''Fix bug'')))
   \<and> netlog (snd (getNotifications (getNotifs sampleConfig emptyListCodec) 70 False False [] []
          (pagedWorld (replicate 120 (sampleNotification ''Fix bug'')))))
     = [GET ''notifications?per_page=50&page=1&participating=false&all=false'',
        GET ''notifications?per_page=50&page=2&participating=false&all=false'']
   \<and> fst (getNotifications (getNotifs (sampleConfig\<lparr>cacheEnabled := False\<rparr>) emptyListCodec)
            200 False False [] []
          (pagedWorld (replicate 100 (sampleNotification ''Fix bug''))))
     = Inr (Ok (replicate 100 (sampleNotification ''Fix bug'')))
   \<and> netlog (snd (getNotifications
                     (getNotifs (sampleConfig\<lparr>cacheEnabled := False\<rparr>) emptyListCodec)
                     200 False False [] []
          (pagedWorld (replicate 100 (sampleNotification ''Fix bug'')))))
     = [GET ''notifications?per_page=50&page=1&participating=false&all=false'',
        GET ''notifications?per_page=50&page=2&participating=false&all=false'',
        GET ''notifications?per_page=50&page=3&participating=false&all=false'']"
proof -
  let ?n = "sampleNotification ''Fix bug''"
  let ?off = "sampleConfig\<lparr>cacheEnabled := False\<rparr>"
  have client: "clientError (pagedWorld feed) = None" for feed
    by (simp add: pagedWorld_def sampleWorld_def)
  have api: "\<forall>k\<ge>1. apiGet (pagedWorld feed) (endpointOf k False False)
               = Inr (take 50 (drop (50 * nat (k - 1)) feed))" for feed
    by (simp add: pagedWorld_def pagedApi_serves)
  have cold: "\<forall>k\<ge>1. fst (cacheGet sampleConfig emptyListCodec (cacheKeyOf k False False)
                           (pagedWorld feed)) = None" for feed
    by (simp add: cacheGet_def pagedWorld_def sampleWorld_def)
  have off: "\<forall>k\<ge>1. fst (cacheGet ?off emptyListCodec (cacheKeyOf k False False)
                           (pagedWorld feed)) = None" for feed
    by (simp add: cacheGet_def)
  have e: "endpointOf 1 False False
             = ''notifications?per_page=50&page=1&participating=false&all=false''"
    "endpointOf 2 False False
             = ''notifications?per_page=50&page=2&participating=false&all=false''"
    "endpointOf 3 False False
             = ''notifications?per_page=50&page=3&participating=false&all=false''"
    by (simp_all add: endpointOf_def itoa_def ghNotifyPerPageLimit_def fmtBool_def
        natDigits.simps)
  have r: "pageRequests 70 120 = 2" "pageRequests 200 100 = 3"
    by (simp_all add: pageRequests_def)
  have u: "[1 ..< 1 + 2] = [1, 2 :: nat]" "[1 ..< 1 + 3] = [1, 2, 3 :: nat]"
    by (simp_all add: upt_rec)
  have l: "netlog (pagedWorld feed) = []" for feed
    by (simp add: pagedWorld_def sampleWorld_def)
  show ?thesis
    using getNotifications_pagination [of 70 "pagedWorld (replicate 120 ?n)" False False
        "replicate 120 ?n" sampleConfig emptyListCodec, OF _ client api cold]
      getNotifications_pagination [of 200 "pagedWorld (replicate 100 ?n)" False False
        "replicate 100 ?n" ?off emptyListCodec, OF _ client api off]
    by (simp add: r u e l upt_rec)
qed

text \<open>Claim C2 as stated fails when a page is answered from the cache: the
  remote API serves a feed of one record, the cache file of page 1, half a
  second old, holds the empty list; \<open>getNotifications\<close> returns no record
  and sends no request.\<close>

theorem getNotifications_pagination_warm_cache_counterexample:
  "apiGet (warmWorld [sampleNotification ''Fix bug'']) (endpointOf 1 False False)
     = Inr [sampleNotification ''Fix bug'']
   \<and> apiGet (warmWorld [sampleNotification ''Fix bug'']) (endpointOf 2 False False) = Inr []
   \<and> files (warmWorld [sampleNotification ''Fix bug''])
         (cachePath sampleConfig (cacheKeyOf 1 False False)) = Some (Entry 1 ''[]'')
   \<and> getNotifications (getNotifs sampleConfig emptyListCodec) 50 False False [] []
          (warmWorld [sampleNotification ''Fix bug''])
     = (Inr (Ok []), warmWorld [sampleNotification ''Fix bug''])
   \<and> netlog (warmWorld [sampleNotification ''Fix bug'']) = []
   \<and> length ([] :: Notification list) \<noteq> min (nat 50) (length [sampleNotification ''Fix bug''])"
proof -
  have "getNotifs sampleConfig emptyListCodec 1 False False (warmWorld [sampleNotification ''Fix bug''])
      = (Ok [], warmWorld [sampleNotification ''Fix bug''])"
    by (simp add: getNotifs_def cacheGet_def warmWorld_def pagedWorld_def sampleWorld_def
        sampleConfig_def emptyListCodec_def time_Since_def time_UnixTime_def unixToInternal_def
        maxDuration_def minDuration_def Let_def)
  then have "getNotifications (getNotifs sampleConfig emptyListCodec) 50 False False [] []
          (warmWorld [sampleNotification ''Fix bug''])
     = (Inr (Ok []), warmWorld [sampleNotification ''Fix bug''])"
    by (simp add: getNotifications_def getNotifications_loop.simps getNotifications_body_def)
  then show ?thesis
    by (simp add: warmWorld_def pagedWorld_def sampleWorld_def pagedApi_serves)
qed

text \<open>It fails as well for a remote API that serves pages of fewer than 50
  records: a page shorter than 50 ends the loop. Of four records served in
  pages of two, with \<open>N = 3\<close>, the first two are returned after one request.
  And without a REST client the command ends with exit code 1 at the first
  page.\<close>

lemma getNotifications_short_pages:
  "apiGet shortPageWorld (endpointOf 1 False False) = Inr (map sampleNotification [''a'', ''b''])
   \<and> apiGet shortPageWorld (endpointOf 2 False False) = Inr (map sampleNotification [''c'', ''d''])
   \<and> getNotifications (getNotifs (sampleConfig\<lparr>cacheEnabled := False\<rparr>) emptyListCodec) 3
        False False [] [] shortPageWorld
     = (Inr (Ok (map sampleNotification [''a'', ''b''])),
        shortPageWorld\<lparr>netlog := [GET (endpointOf 1 False False)]\<rparr>)"
  by (simp add: getNotifications_def getNotifications_loop.simps getNotifications_body_def
      getNotifs_def cacheGet_def cacheSet_def ghRestApiClient_def shortPageWorld_def
      sampleWorld_def sampleConfig_def Let_def min_go_def ghNotifyPerPageLimit_def
      endpointOf_def itoa_def fmtBool_def natDigits.simps sampleNotification_def)

lemma getNotifications_no_client:
  "getNotifications (getNotifs sampleConfig emptyListCodec) 50 False False [] []
     (sampleWorld\<lparr>clientError := Some ''no token''\<rparr>)
   = (Inr (Exited 1),
      sampleWorld\<lparr>clientError := Some ''no token'',
                  stderr := [''ERROR: failed to create REST client: no token'']\<rparr>)"
  by (simp add: getNotifications_def getNotifications_loop.simps getNotifications_body_def
      getNotifs_def cacheGet_def ghRestApiClient_def die_def eprintln_def
      sampleWorld_def sampleConfig_def Let_def)

section \<open>Flag conflict\<close>

text \<open>
  Claim C8, as amended. Whenever the mark-all-read flag is set together with a
  non-empty exclude or include pattern, the command exits with code 1 after
  writing one line to the error stream and nothing else: no request is sent, and
  standard output and the cache are untouched. The line is the conflict message
  when \<open>gh\<close> is found on the path, and the missing-\<open>gh\<close> message otherwise.
\<close>

theorem markRead_conflict:
  assumes "markRead fl" and "exclusion fl \<noteq> [] \<or> filter_flag fl \<noteq> []"
  shows "main_run cfg codec tf fl w =
           (ExitCode 1,
            w\<lparr>stderr := stderr w
                 @ [''ERROR: '' @ (if ghOnPath w then conflictMsg else installGhMsg)]\<rparr>)
         \<and> netlog (snd (main_run cfg codec tf fl w)) = netlog w"
  using assms by (auto simp: main_run_def die_def eprintln_def)

theorem markRead_conflict_witness:
  "markRead sampleFlags \<and> exclusion sampleFlags \<noteq> []
   \<and> fst (main_run sampleConfig failingCodec sampleTimeFmt sampleFlags sampleWorld)
       = ExitCode 1
   \<and> stderr (snd (main_run sampleConfig failingCodec sampleTimeFmt sampleFlags sampleWorld))
       = [''ERROR: '' @ conflictMsg]
   \<and> netlog (snd (main_run sampleConfig failingCodec sampleTimeFmt sampleFlags sampleWorld))
       = []
   \<and> main_run sampleConfig failingCodec sampleTimeFmt
        (sampleFlags\<lparr>exclusion := [], filter_flag := ''Repo''\<rparr>) sampleWorld
       = (ExitCode 1, sampleWorld\<lparr>stderr := [''ERROR: '' @ conflictMsg]\<rparr>)"
  using markRead_conflict [of sampleFlags sampleConfig failingCodec sampleTimeFmt sampleWorld]
    markRead_conflict [of "sampleFlags\<lparr>exclusion := [], filter_flag := ''Repo''\<rparr>"
      sampleConfig failingCodec sampleTimeFmt sampleWorld]
  by (simp add: sampleFlags_def sampleWorld_def)

text \<open>Claim C8 as stated fails when \<open>gh\<close> is not on the path: the line written is
  the missing-\<open>gh\<close> message, not the conflict message.\<close>

theorem markRead_conflict_gh_missing_counterexample:
  "markRead sampleFlags \<and> exclusion sampleFlags \<noteq> []
   \<and> main_run sampleConfig failingCodec sampleTimeFmt sampleFlags
        (sampleWorld\<lparr>ghOnPath := False\<rparr>)
       = (ExitCode 1,
          sampleWorld\<lparr>ghOnPath := False, stderr := [''ERROR: '' @ installGhMsg]\<rparr>)
   \<and> ''ERROR: '' @ installGhMsg \<noteq> ''ERROR: '' @ conflictMsg"
  by (simp add: sampleFlags_def sampleWorld_def main_run_def die_def eprintln_def
      installGhMsg_def conflictMsg_def)

end
